theory Spec2Isabelle
  imports Main
begin

section \<open>Strings as the schema viewer uses them\<close>

text \<open>
  The parser of \<^verbatim>\<open>GraphQLSchemaViewer.tsx\<close> (the callback of \<^verbatim>\<open>useMemo\<close>) works on
  JavaScript strings with \<^verbatim>\<open>split\<close>, \<^verbatim>\<open>trim\<close>, \<^verbatim>\<open>startsWith\<close>, \<^verbatim>\<open>endsWith\<close>,
  \<^verbatim>\<open>includes\<close>, \<^verbatim>\<open>join\<close>, \<^verbatim>\<open>replace\<close>, \<^verbatim>\<open>match\<close> and \<^verbatim>\<open>matchAll\<close>.
  A string is modelled as a \<^typ>\<open>string\<close> whose characters are the code units below 256;
  the white space of JavaScript in that range is TAB, LF, VT, FF, CR, SPACE and NBSP.
\<close>

definition isSpace :: "char \<Rightarrow> bool" where
  "isSpace c \<longleftrightarrow>
     c \<in> set [CHR 0x09, CHR 0x0A, CHR 0x0B, CHR 0x0C, CHR 0x0D, CHR 0x20, CHR 0xA0]"

definition isWord :: "char \<Rightarrow> bool" where
  "isWord c \<longleftrightarrow>
     c \<in> set ''abcdefghijklmnopqrstuvwxyzABCDEFGHIJKLMNOPQRSTUVWXYZ0123456789_''"

definition isLineTerminator :: "char \<Rightarrow> bool" where
  "isLineTerminator c \<longleftrightarrow> c \<in> set [CHR 0x0A, CHR 0x0D]"

definition trim :: "string \<Rightarrow> string" where
  "trim s = rev (dropWhile isSpace (rev (dropWhile isSpace s)))"

definition startsWith :: "string \<Rightarrow> string \<Rightarrow> bool" where
  "startsWith s p \<longleftrightarrow> take (length p) s = p"

definition endsWith :: "string \<Rightarrow> string \<Rightarrow> bool" where
  "endsWith s p \<longleftrightarrow> length p \<le> length s \<and> drop (length s - length p) s = p"

definition includesChar :: "string \<Rightarrow> char \<Rightarrow> bool" where
  "includesChar s c \<longleftrightarrow> c \<in> set s"

text \<open>\<^verbatim>\<open>s.split('\n')\<close>: the pieces between line feeds. The result is never the empty list,
  so the last case of the definition is never taken.\<close>

fun splitLines :: "string \<Rightarrow> string list" where
  "splitLines [] = [[]]"
| "splitLines (c # cs) =
     (if c = CHR 0x0A then [] # splitLines cs
      else (case splitLines cs of l # ls \<Rightarrow> (c # l) # ls | [] \<Rightarrow> [[c]]))"

text \<open>\<^verbatim>\<open>xs.join(sep)\<close>.\<close>

fun join :: "string \<Rightarrow> string list \<Rightarrow> string" where
  "join sep [] = []"
| "join sep [x] = x"
| "join sep (x # y # ys) = x @ sep @ join sep (y # ys)"

text \<open>\<^verbatim>\<open>s.replace(/[...]/g, '')\<close> for a character class: the characters of the class are dropped.\<close>

definition removeChars :: "char list \<Rightarrow> string \<Rightarrow> string" where
  "removeChars cs s = filter (\<lambda>c. c \<notin> set cs) s"

section \<open>The regular expressions of the source, with backtracking\<close>

text \<open>
  The regular expressions are kept as syntax and run by a backtracking matcher that
  returns the successes in the order in which the matcher of JavaScript tries them: the
  first success is the match. Greedy quantifiers try more repetitions first, lazy ones
  fewer; an alternative tries its left branch first; a repetition that consumes nothing is
  not taken.
\<close>

datatype cclass =
    Lit char            \<comment> \<open>the character itself\<close>
  | WordC               \<comment> \<open>\<^verbatim>\<open>\w\<close>\<close>
  | SpaceC              \<comment> \<open>\<^verbatim>\<open>\s\<close>\<close>
  | Dot                 \<comment> \<open>\<^verbatim>\<open>.\<close> (no line terminator)\<close>
  | NoneOf "char list"  \<comment> \<open>\<^verbatim>\<open>[^...]\<close>\<close>

fun cmatch :: "cclass \<Rightarrow> char \<Rightarrow> bool" where
  "cmatch (Lit d) c \<longleftrightarrow> c = d"
| "cmatch WordC c \<longleftrightarrow> isWord c"
| "cmatch SpaceC c \<longleftrightarrow> isSpace c"
| "cmatch Dot c \<longleftrightarrow> \<not> isLineTerminator c"
| "cmatch (NoneOf ds) c \<longleftrightarrow> c \<notin> set ds"

datatype regex =
    Eps
  | Bol                 \<comment> \<open>\<^verbatim>\<open>^\<close> (no \<^verbatim>\<open>m\<close> flag: the start of the input)\<close>
  | Eol                 \<comment> \<open>\<^verbatim>\<open>$\<close> (no \<^verbatim>\<open>m\<close> flag: the end of the input)\<close>
  | Ch cclass
  | Seq regex regex
  | Alt regex regex
  | Star regex          \<comment> \<open>\<^verbatim>\<open>r*\<close>\<close>
  | LazyStar regex      \<comment> \<open>\<^verbatim>\<open>r*?\<close>\<close>
  | Opt regex           \<comment> \<open>\<^verbatim>\<open>r?\<close>\<close>
  | Grp nat regex       \<comment> \<open>capturing group number n\<close>

definition Plus :: "regex \<Rightarrow> regex" where
  "Plus r = Seq r (Star r)"

definition LazyPlus :: "regex \<Rightarrow> regex" where
  "LazyPlus r = Seq r (LazyStar r)"

fun lits :: "string \<Rightarrow> regex" where
  "lits [] = Eps"
| "lits [c] = Ch (Lit c)"
| "lits (c # cs) = Seq (Ch (Lit c)) (lits cs)"

fun seqs :: "regex list \<Rightarrow> regex" where
  "seqs [] = Eps"
| "seqs [r] = r"
| "seqs (r # rs) = Seq r (seqs rs)"

text \<open>
  A matcher state: the position in the input, the rest of the input from there, and the
  captures so far.
\<close>

type_synonym captures = "nat \<rightharpoonup> string"
type_synonym mstate = "nat \<times> string \<times> captures"

function ms :: "regex \<Rightarrow> mstate \<Rightarrow> mstate list" where
  "ms Eps st = [st]"
| "ms Bol (pos, rest, caps) = (if pos = 0 then [(pos, rest, caps)] else [])"
| "ms Eol (pos, rest, caps) = (if rest = [] then [(pos, rest, caps)] else [])"
| "ms (Ch cl) (pos, rest, caps) =
     (case rest of
        [] \<Rightarrow> []
      | c # cs \<Rightarrow> if cmatch cl c then [(Suc pos, cs, caps)] else [])"
| "ms (Seq r1 r2) st = concat (map (ms r2) (ms r1 st))"
| "ms (Alt r1 r2) st = ms r1 st @ ms r2 st"
| "ms (Star r) (pos, rest, caps) =
     concat (map (\<lambda>(pos', rest', caps').
                    if length rest' < length rest then ms (Star r) (pos', rest', caps') else [])
                 (ms r (pos, rest, caps)))
     @ [(pos, rest, caps)]"
| "ms (LazyStar r) (pos, rest, caps) =
     (pos, rest, caps) #
     concat (map (\<lambda>(pos', rest', caps').
                    if length rest' < length rest then ms (LazyStar r) (pos', rest', caps') else [])
                 (ms r (pos, rest, caps)))"
| "ms (Opt r) st = ms r st @ [st]"
| "ms (Grp n r) (pos, rest, caps) =
     map (\<lambda>(pos', rest', caps'). (pos', rest', caps'(n \<mapsto> take (pos' - pos) rest)))
         (ms r (pos, rest, caps))"
  by pat_completeness auto
termination
  by (relation "inv_image (less_than <*lex*> less_than)
                  (\<lambda>(r, pos, rest, caps). (size r, length rest))")
     auto

text \<open>
  The leftmost match at or after the current position: the captures, and where the match
  starts and ends (\<^verbatim>\<open>RegExp.prototype.exec\<close>).
\<close>

fun search :: "regex \<Rightarrow> nat \<Rightarrow> string \<Rightarrow> (nat \<times> mstate) option" where
  "search r pos rest =
     (case ms r (pos, rest, Map.empty) of
        st # _ \<Rightarrow> Some (pos, st)
      | [] \<Rightarrow> (case rest of [] \<Rightarrow> None | c # cs \<Rightarrow> search r (Suc pos) cs))"

text \<open>\<^verbatim>\<open>s.match(re)\<close> without the \<^verbatim>\<open>g\<close> flag: the captures of the leftmost match.\<close>

definition rmatch :: "regex \<Rightarrow> string \<Rightarrow> captures option" where
  "rmatch r s = (case search r 0 s of None \<Rightarrow> None | Some (_, _, _, caps) \<Rightarrow> Some caps)"

text \<open>\<^verbatim>\<open>s.replace(re, '')\<close> without the \<^verbatim>\<open>g\<close> flag: the leftmost match is cut out.\<close>

definition removeFirst :: "regex \<Rightarrow> string \<Rightarrow> string" where
  "removeFirst r s =
     (case search r 0 s of
        None \<Rightarrow> s
      | Some (start, pos', _, _) \<Rightarrow> take start s @ drop pos' s)"

text \<open>
  \<^verbatim>\<open>Array.from(s.matchAll(re))\<close>: the captures of the successive matches. The next search
  starts where the last match ended, and one character further when that match was empty.
  The rest of the input after a match is never longer than before it; the two tests on the
  lengths say so for the termination proof and are always true (\<open>matchAllFrom_unguarded\<close>).
\<close>

function matchAllFrom :: "regex \<Rightarrow> nat \<Rightarrow> string \<Rightarrow> captures list" where
  "matchAllFrom r pos rest =
     (case search r pos rest of
        None \<Rightarrow> []
      | Some (start, pos', rest', caps) \<Rightarrow>
          caps #
          (if pos' = start then
             (case rest' of
                [] \<Rightarrow> []
              | c # cs \<Rightarrow> if length cs < length rest then matchAllFrom r (Suc pos') cs else [])
           else if length rest' < length rest then matchAllFrom r pos' rest'
           else []))"
  by pat_completeness auto
termination
  by (relation "measure (\<lambda>(r, pos, rest). length rest)") auto

definition matchAll :: "regex \<Rightarrow> string \<Rightarrow> captures list" where
  "matchAll r s = matchAllFrom r 0 s"

text \<open>The text of a group, the empty string for a group that took no part in the match.\<close>

definition grp :: "captures \<Rightarrow> nat \<Rightarrow> string" where
  "grp caps n = (case caps n of None \<Rightarrow> [] | Some t \<Rightarrow> t)"

section \<open>The data model\<close>

text \<open>
  \<^verbatim>\<open>interface GraphQLOperation\<close> and \<^verbatim>\<open>interface GraphQLType\<close>. An optional field is an
  \<^typ>\<open>'a option\<close>, \<^verbatim>\<open>undefined\<close> being \<^term>\<open>None\<close>. The field \<^verbatim>\<open>type\<close> of an operation is
  one of two literals; the \<^verbatim>\<open>kind\<close> of a type is read off the source text (the first group
  of the header pattern) and is kept as that text.
\<close>

datatype operationType = query | mutation

datatype rootTypeName = Query | Mutation

fun rootName :: "rootTypeName \<Rightarrow> string" where
  "rootName Query = ''Query''"
| "rootName Mutation = ''Mutation''"

record parameter =
  p_name :: string
  p_type :: string
  p_required :: bool

record GraphQLOperation =
  op_name :: string
  op_type :: operationType
  op_description :: "string option"
  op_parameters :: "parameter list option"
  op_returnType :: string
  op_content :: string

record GraphQLType =
  ty_name :: string
  ty_kind :: string
  ty_description :: "string option"
  ty_content :: string

text \<open>The schema as the component receives it at run time: any value of JavaScript.\<close>

datatype jsValue =
    JSUndefined
  | JSNull
  | JSBoolean bool
  | JSNumber int
  | JSObject
  | JSString string

section \<open>The patterns of the source\<close>

definition tripleQuote :: string where
  "tripleQuote = [CHR 0x22, CHR 0x22, CHR 0x22]"

text \<open>\<^verbatim>\<open>/^("""|#)/\<close>\<close>

definition descStartRegex :: regex where
  "descStartRegex = Seq Bol (Grp 1 (Alt (lits tripleQuote) (lits ''#'')))"

text \<open>\<^verbatim>\<open>/"""$/\<close>\<close>

definition descEndRegex :: regex where
  "descEndRegex = Seq (lits tripleQuote) Eol"

text \<open>\<^verbatim>\<open>/^\s*(\w+)\s*(\([^)]*\))?\s*:\s*(.+?)(\s*\{|\s*$)/\<close>\<close>

definition fieldRegex :: regex where
  "fieldRegex = seqs
     [Bol, Star (Ch SpaceC), Grp 1 (Plus (Ch WordC)), Star (Ch SpaceC),
      Opt (Grp 2 (seqs [Ch (Lit CHR ''(''), Star (Ch (NoneOf '')'')), Ch (Lit CHR '')'')])),
      Star (Ch SpaceC), Ch (Lit CHR '':''), Star (Ch SpaceC),
      Grp 3 (LazyPlus (Ch Dot)),
      Grp 4 (Alt (Seq (Star (Ch SpaceC)) (Ch (Lit CHR ''{'')))
                 (Seq (Star (Ch SpaceC)) Eol))]"

text \<open>\<^verbatim>\<open>/\s*\{.*$/\<close>\<close>

definition braceTailRegex :: regex where
  "braceTailRegex = seqs [Star (Ch SpaceC), Ch (Lit CHR ''{''), Star (Ch Dot), Eol]"

text \<open>\<^verbatim>\<open>/(\w+)\s*:\s*([^,]+)/g\<close>\<close>

definition paramRegex :: regex where
  "paramRegex = seqs
     [Grp 1 (Plus (Ch WordC)), Star (Ch SpaceC), Ch (Lit CHR '':''), Star (Ch SpaceC),
      Grp 2 (Plus (Ch (NoneOf '',''))) ]"

text \<open>\<^verbatim>\<open>/^(type|interface|enum|scalar|union|input)\s+(\w+)/\<close>\<close>

definition typeRegex :: regex where
  "typeRegex = seqs
     [Bol,
      Grp 1 (Alt (lits ''type'') (Alt (lits ''interface'') (Alt (lits ''enum'')
            (Alt (lits ''scalar'') (Alt (lits ''union'') (lits ''input'')))))),
      Plus (Ch SpaceC), Grp 2 (Plus (Ch WordC))]"

text \<open>
  \<^verbatim>\<open>trimmed.replace(/^("""|#)/, '').replace(/"""$/, '').trim()\<close>, which both passes apply to
  a description line.
\<close>

definition descTextOf :: "string \<Rightarrow> string" where
  "descTextOf trimmed = trim (removeFirst descEndRegex (removeFirst descStartRegex trimmed))"

text \<open>\<^verbatim>\<open>s.trim() || undefined\<close>\<close>

definition orUndefined :: "string \<Rightarrow> string option" where
  "orUndefined s = (if s = [] then None else Some s)"

section \<open>The operation pass: \<^verbatim>\<open>parseOperationsFromType\<close>\<close>

text \<open>The local variables of \<^verbatim>\<open>parseOperationsFromType\<close>.\<close>

record opState =
  typeOps :: "GraphQLOperation list"
  inTypeBlock :: bool
  braceCount :: int
  currentDescription :: string
  descriptionLines :: "string list"
  inDescription :: bool

definition initOpState :: opState where
  "initOpState =
     \<lparr>typeOps = [], inTypeBlock = False, braceCount = 0, currentDescription = [],
      descriptionLines = [], inDescription = False\<rparr>"

text \<open>The condition that detects the start of the type block.\<close>

definition isHeader :: "rootTypeName \<Rightarrow> string \<Rightarrow> bool" where
  "isHeader typeName trimmed \<longleftrightarrow>
     trimmed = ''type '' @ rootName typeName \<or>
     startsWith trimmed (''type '' @ rootName typeName @ '' '') \<or>
     startsWith trimmed (''type '' @ rootName typeName @ ''{'')"

definition isDescLine :: "string \<Rightarrow> bool" where
  "isDescLine trimmed \<longleftrightarrow> startsWith trimmed tripleQuote \<or> startsWith trimmed ''#''"

text \<open>The loop over \<^verbatim>\<open>paramMatches\<close>: one parameter for each match.\<close>

definition mkParameter :: "captures \<Rightarrow> parameter" where
  "mkParameter m =
     (let paramName = grp m 1;
          paramType = trim (grp m 2);
          required = includesChar paramType CHR ''!''
      in \<lparr>p_name = paramName, p_type = trim (removeChars ''!'' paramType),
          p_required = required\<rparr>)"

definition parseParameters :: "string \<Rightarrow> parameter list" where
  "parseParameters paramsString =
     (if paramsString = [] then []
      else let paramsContent = removeChars ''()'' paramsString;
               paramMatches = matchAll paramRegex paramsContent
           in map mkParameter paramMatches)"

text \<open>The object pushed for a line that matches the field pattern.\<close>

definition mkOperation ::
    "operationType \<Rightarrow> string \<Rightarrow> string \<Rightarrow> captures \<Rightarrow> GraphQLOperation" where
  "mkOperation operationType curDesc line fieldMatch =
     (let operationName = grp fieldMatch 1;
          paramsString = grp fieldMatch 2;
          returnType = trim (grp fieldMatch 3);
          returnType = trim (removeFirst braceTailRegex returnType);
          parameters = parseParameters paramsString;
          description = orUndefined (trim curDesc)
      in \<lparr>op_name = operationName, op_type = operationType, op_description = description,
          op_parameters = (if length parameters > 0 then Some parameters else None),
          op_returnType = trim (removeChars ''!,'' returnType),
          op_content = trim line\<rparr>)"

text \<open>The block \<^verbatim>\<open>// Parse operation fields\<close>, entered at depth above zero on a line that is no description line.\<close>

definition parseField :: "operationType \<Rightarrow> string \<Rightarrow> string \<Rightarrow> opState \<Rightarrow> opState" where
  "parseField operationType line trimmed st =
     (case rmatch fieldRegex trimmed of
        Some fieldMatch \<Rightarrow>
          st\<lparr>typeOps := typeOps st @ [mkOperation operationType (currentDescription st) line fieldMatch],
             currentDescription := [], descriptionLines := []\<rparr>
      | None \<Rightarrow>
          if currentDescription st \<noteq> [] \<and> \<not> startsWith trimmed ''#''
             \<and> \<not> startsWith trimmed tripleQuote
          then st\<lparr>currentDescription := [], descriptionLines := []\<rparr>
          else st)"

text \<open>The branch \<^verbatim>\<open>if (isDescriptionLine && braceCount > 0)\<close>, which ends with \<^verbatim>\<open>continue\<close>.\<close>

definition descriptionStep :: "string \<Rightarrow> opState \<Rightarrow> opState" where
  "descriptionStep trimmed st =
     (let st = st\<lparr>inDescription := True\<rparr>;
          descText = descTextOf trimmed;
          st = (if descText \<noteq> [] then st\<lparr>descriptionLines := descriptionLines st @ [descText]\<rparr>
                else st)
      in if endsWith trimmed tripleQuote \<and> startsWith trimmed tripleQuote \<and> length trimmed > 3
         then st\<lparr>inDescription := False\<rparr>
         else st)"

text \<open>
  One turn of the loop body. The result is the state after the turn, and whether the turn
  ended with \<^verbatim>\<open>break\<close>.
\<close>

definition opStep ::
    "rootTypeName \<Rightarrow> operationType \<Rightarrow> string \<Rightarrow> opState \<Rightarrow> opState \<times> bool" where
  "opStep typeName operationType line st =
     (let trimmed = trim line in
      if trimmed = [] then
        (if \<not> inDescription st then st\<lparr>currentDescription := [], descriptionLines := []\<rparr>
         else st, False)
      else if isHeader typeName trimmed then
        (st\<lparr>inTypeBlock := True,
            braceCount := (if includesChar line CHR ''{'' then 1 else 0),
            currentDescription := [], descriptionLines := [], inDescription := False\<rparr>, False)
      else if inTypeBlock st then
        (let st = (if includesChar line CHR ''{'' then st\<lparr>braceCount := braceCount st + 1\<rparr>
                   else st);
             st = (if includesChar line CHR ''}'' then st\<lparr>braceCount := braceCount st - 1\<rparr>
                   else st);
             isDescriptionLine = isDescLine trimmed
         in if isDescriptionLine \<and> braceCount st > 0 then (descriptionStep trimmed st, False)
            else
              (let st = (if inDescription st \<and> \<not> isDescriptionLine \<and> braceCount st > 0
                         then st\<lparr>currentDescription := trim (join '' '' (descriptionLines st)),
                                 inDescription := False\<rparr>
                         else st);
                   st = (if braceCount st > 0 \<and> \<not> isDescriptionLine
                         then parseField operationType line trimmed st
                         else st)
               in if braceCount st = 0 \<and> includesChar trimmed CHR ''}''
                  then (st\<lparr>inTypeBlock := False\<rparr>, True)
                  else (st, False)))
      else (st, False))"

text \<open>The \<^verbatim>\<open>for\<close> loop over the lines, left at the first \<^verbatim>\<open>break\<close>.\<close>

fun opLoop :: "rootTypeName \<Rightarrow> operationType \<Rightarrow> string list \<Rightarrow> opState \<Rightarrow> opState" where
  "opLoop typeName operationType [] st = st"
| "opLoop typeName operationType (line # ls) st =
     (case opStep typeName operationType line st of
        (st', brk) \<Rightarrow> if brk then st' else opLoop typeName operationType ls st')"

definition parseOperationsFromType ::
    "string list \<Rightarrow> rootTypeName \<Rightarrow> operationType \<Rightarrow> GraphQLOperation list" where
  "parseOperationsFromType lines typeName operationType =
     typeOps (opLoop typeName operationType lines initOpState)"

section \<open>The type-definition pass\<close>

text \<open>The local variables of the second loop of the callback.\<close>

record typeState =
  typeDefs :: "GraphQLType list"
  currentType :: "GraphQLType option"
  tCurrentDescription :: string
  tBraceCount :: int
  inType :: bool
  typeContent :: "string list"

definition initTypeState :: typeState where
  "initTypeState =
     \<lparr>typeDefs = [], currentType = None, tCurrentDescription = [], tBraceCount = 0,
      inType = False, typeContent = []\<rparr>"

definition isDefinitionLine :: "string \<Rightarrow> bool" where
  "isDefinitionLine trimmed \<longleftrightarrow>
     startsWith trimmed ''type '' \<or> startsWith trimmed ''interface '' \<or>
     startsWith trimmed ''enum '' \<or> startsWith trimmed ''scalar '' \<or>
     startsWith trimmed ''union '' \<or> startsWith trimmed ''input ''"

definition isReserved :: "string \<Rightarrow> bool" where
  "isReserved typeName \<longleftrightarrow>
     typeName = ''Query'' \<or> typeName = ''Mutation'' \<or> typeName = ''Subscription''"

text \<open>\<^verbatim>\<open>currentType.content = typeContent.join('\n'); typeDefs.push(currentType)\<close>\<close>

definition pushCurrent :: "GraphQLType \<Rightarrow> typeState \<Rightarrow> typeState" where
  "pushCurrent ct st =
     st\<lparr>typeDefs := typeDefs st @ [ct\<lparr>ty_content := join [CHR 0x0A] (typeContent st)\<rparr>]\<rparr>"

text \<open>The two statements that count braces on a line.\<close>

definition countBraces :: "string \<Rightarrow> typeState \<Rightarrow> typeState" where
  "countBraces line st =
     (let st = (if includesChar line CHR ''{'' then st\<lparr>tBraceCount := tBraceCount st + 1\<rparr>
                else st)
      in if includesChar line CHR ''}'' then st\<lparr>tBraceCount := tBraceCount st - 1\<rparr> else st)"

text \<open>The branch of a line that starts with one of the six keywords.\<close>

definition openType :: "string \<Rightarrow> string \<Rightarrow> typeState \<Rightarrow> typeState" where
  "openType line trimmed st =
     (case rmatch typeRegex trimmed of
        None \<Rightarrow> st
      | Some m \<Rightarrow>
          (let typeName = grp m 2 in
           if isReserved typeName then st
           else
             (let st = (case currentType st of Some ct \<Rightarrow> pushCurrent ct st | None \<Rightarrow> st);
                  kind = grp m 1;
                  st = st\<lparr>currentType :=
                            Some \<lparr>ty_name = typeName, ty_kind = kind,
                                  ty_description = orUndefined (trim (tCurrentDescription st)),
                                  ty_content = []\<rparr>,
                          typeContent := [line], tCurrentDescription := [], inType := True,
                          tBraceCount := 0\<rparr>
              in countBraces line st)))"

text \<open>The branch \<^verbatim>\<open>else if (inType && currentType)\<close>.\<close>

definition continueType :: "string \<Rightarrow> GraphQLType \<Rightarrow> typeState \<Rightarrow> typeState" where
  "continueType line ct st =
     (let st = st\<lparr>typeContent := typeContent st @ [line]\<rparr>;
          st = countBraces line st
      in if tBraceCount st = 0 \<and>
            (includesChar line CHR ''}'' \<or> ty_kind ct = ''scalar'' \<or> ty_kind ct = ''union'')
         then (pushCurrent ct st)\<lparr>currentType := None, typeContent := [], inType := False\<rparr>
         else st)"

definition typeStep :: "string \<Rightarrow> typeState \<Rightarrow> typeState" where
  "typeStep line st =
     (let trimmed = trim line in
      if trimmed = [] then st
      else if isDescLine trimmed \<and> \<not> inType st then
        st\<lparr>tCurrentDescription := tCurrentDescription st @ descTextOf trimmed @ '' ''\<rparr>
      else if isDefinitionLine trimmed then openType line trimmed st
      else
        (case currentType st of
           Some ct \<Rightarrow>
             if inType st then continueType line ct st else st\<lparr>tCurrentDescription := []\<rparr>
         | None \<Rightarrow> st\<lparr>tCurrentDescription := []\<rparr>))"

text \<open>The loop, and the definition still open at the end of the input.\<close>

definition parseTypes :: "string list \<Rightarrow> GraphQLType list" where
  "parseTypes lines =
     (let st = fold typeStep lines initTypeState
      in typeDefs (case currentType st of Some ct \<Rightarrow> pushCurrent ct st | None \<Rightarrow> st))"

section \<open>The callback of \<^verbatim>\<open>useMemo\<close>\<close>

text \<open>
  \<^verbatim>\<open>if (!schema || typeof schema !== 'string') return { operations: [], types: [] }\<close>:
  of the strings only the empty one is falsy. The pair is \<^verbatim>\<open>operations\<close> and \<^verbatim>\<open>types\<close>.
  The callback has no \<^verbatim>\<open>throw\<close>, and each access to a group of a match is to a group that
  took part in it, so the result has no error branch.
\<close>

definition parseSchema :: "jsValue \<Rightarrow> GraphQLOperation list \<times> GraphQLType list" where
  "parseSchema schema =
     (case schema of
        JSString s \<Rightarrow>
          if s = [] then ([], [])
          else
            (let lines = splitLines s;
                 queryOps = parseOperationsFromType lines Query query;
                 mutationOps = parseOperationsFromType lines Mutation mutation
             in (queryOps @ mutationOps, parseTypes lines))
      | _ \<Rightarrow> ([], []))"

section \<open>Notions used in the statements and proofs\<close>

text \<open>Whether the loop of the operation pass has been left by \<^verbatim>\<open>break\<close> on one of the lines.\<close>

fun opBroke :: "rootTypeName \<Rightarrow> operationType \<Rightarrow> string list \<Rightarrow> opState \<Rightarrow> bool" where
  "opBroke typeName operationType [] st = False"
| "opBroke typeName operationType (line # ls) st =
     (case opStep typeName operationType line st of
        (st', brk) \<Rightarrow> brk \<or> opBroke typeName operationType ls st')"

text \<open>The operation pass before it has met the header of its root type.\<close>

definition opIdle :: "opState \<Rightarrow> bool" where
  "opIdle st \<longleftrightarrow> \<not> inTypeBlock st \<and> currentDescription st = [] \<and> descriptionLines st = []"

text \<open>
  A line on which the type pass opens no definition: it does not start with one of the six
  keywords, or the header pattern does not match it, or the name it finds is reserved.
\<close>

definition opensNoDefinition :: "string \<Rightarrow> bool" where
  "opensNoDefinition line \<longleftrightarrow>
     (if isDefinitionLine (trim line)
      then (case rmatch typeRegex (trim line) of None \<Rightarrow> True | Some m \<Rightarrow> isReserved (grp m 2))
      else True)"

text \<open>A property of the definitions collected so far and of the one being collected.\<close>

definition typeInv :: "(GraphQLType \<Rightarrow> bool) \<Rightarrow> typeState \<Rightarrow> bool" where
  "typeInv Q st \<longleftrightarrow>
     list_all Q (typeDefs st) \<and> (case currentType st of None \<Rightarrow> True | Some ct \<Rightarrow> Q ct)"

text \<open>An optional description that is present only as a non-empty, trimmed text.\<close>

definition descriptionOk :: "string option \<Rightarrow> bool" where
  "descriptionOk d \<longleftrightarrow> (case d of None \<Rightarrow> True | Some t \<Rightarrow> t \<noteq> [] \<and> trim t = t)"

text \<open>
  A state of the operation pass with no description pending: blank lines leave such a state
  as it is.
\<close>

definition opPlain :: "opState \<Rightarrow> bool" where
  "opPlain st \<longleftrightarrow> currentDescription st = [] \<and> descriptionLines st = [] \<and> \<not> inDescription st"

text \<open>
  The name and kind that a line opens in the type pass: those of the header pattern on a line
  that starts with one of the six keywords, unless the name is reserved.
\<close>

definition openedBy :: "string \<Rightarrow> (string \<times> string) list" where
  "openedBy line =
     (if isDefinitionLine (trim line)
      then (case rmatch typeRegex (trim line) of
              None \<Rightarrow> []
            | Some m \<Rightarrow> if isReserved (grp m 2) then [] else [(grp m 2, grp m 1)])
      else [])"

text \<open>The names and kinds of the definitions collected so far and of the one being collected.\<close>

definition typeEntries :: "typeState \<Rightarrow> (string \<times> string) list" where
  "typeEntries st =
     map (\<lambda>t. (ty_name t, ty_kind t)) (typeDefs st) @
     (case currentType st of None \<Rightarrow> [] | Some ct \<Rightarrow> [(ty_name ct, ty_kind ct)])"

section \<open>Facts about the matcher\<close>

text \<open>
  The equations of the matcher for the two stars call the matcher on the same expression, so
  they are applied by hand.
\<close>

declare ms.simps [simp del]

lemma ms_Star_mem:
  assumes "x \<in> set (ms (Star r) (pos, rest, caps))"
  shows "x = (pos, rest, caps) \<or>
         (\<exists>p1 s1 c1. (p1, s1, c1) \<in> set (ms r (pos, rest, caps)) \<and> length s1 < length rest \<and>
                      x \<in> set (ms (Star r) (p1, s1, c1)))"
proof -
  have "x \<in> set (concat (map (\<lambda>(pos', rest', caps').
                    if length rest' < length rest then ms (Star r) (pos', rest', caps') else [])
                 (ms r (pos, rest, caps))) @ [(pos, rest, caps)])"
    using assms by (subst (asm) ms.simps(7)) assumption
  then show ?thesis
    by (auto split: if_splits)
qed

lemma ms_LazyStar_mem:
  assumes "x \<in> set (ms (LazyStar r) (pos, rest, caps))"
  shows "x = (pos, rest, caps) \<or>
         (\<exists>p1 s1 c1. (p1, s1, c1) \<in> set (ms r (pos, rest, caps)) \<and> length s1 < length rest \<and>
                      x \<in> set (ms (LazyStar r) (p1, s1, c1)))"
proof -
  have "x \<in> set ((pos, rest, caps) # concat (map (\<lambda>(pos', rest', caps').
                    if length rest' < length rest then ms (LazyStar r) (pos', rest', caps') else [])
                 (ms r (pos, rest, caps))))"
    using assms by (subst (asm) ms.simps(8)) assumption
  then show ?thesis
    by (auto split: if_splits)
qed

lemma ms_suffix:
  "(pos', rest', caps') \<in> set (ms r st) \<Longrightarrow>
   \<exists>pre. fst (snd st) = pre @ rest' \<and> pos' = fst st + length pre"
proof (induction r st arbitrary: pos' rest' caps' rule: ms.induct)
  case (1 st)
  then show ?case by (auto simp: ms.simps(1))
next
  case (2 pos rest caps)
  then show ?case by (auto simp: ms.simps(2) split: if_splits)
next
  case (3 pos rest caps)
  then show ?case by (auto simp: ms.simps(3) split: if_splits)
next
  case (4 cl pos rest caps)
  then show ?case by (auto simp: ms.simps(4) split: list.splits if_splits)
next
  case (5 r1 r2 st)
  from "5.prems" obtain mid where m: "mid \<in> set (ms r1 st)" and r: "(pos', rest', caps') \<in> set (ms r2 mid)"
    by (auto simp: ms.simps(5))
  obtain p1 s1 c1 where mid: "mid = (p1, s1, c1)" by (cases mid)
  from "5.IH"(1) [of p1 s1 c1] m mid obtain pre1 where
    a: "fst (snd st) = pre1 @ s1 \<and> p1 = fst st + length pre1" by auto
  from "5.IH"(2) [OF m r] mid obtain pre2 where
    b: "s1 = pre2 @ rest' \<and> pos' = p1 + length pre2" by auto
  have "fst (snd st) = (pre1 @ pre2) @ rest' \<and> pos' = fst st + length (pre1 @ pre2)"
    using a b by simp
  then show ?case by blast
next
  case (6 r1 r2 st)
  then show ?case by (auto simp: ms.simps(6))
next
  case (7 r pos rest caps)
  show ?case
  proof (cases "(pos', rest', caps') = (pos, rest, caps)")
    case True
    then show ?thesis by simp
  next
    case False
    with ms_Star_mem [OF "7.prems"] obtain p1 s1 c1 where m: "(p1, s1, c1) \<in> set (ms r (pos, rest, caps))"
      and l: "length s1 < length rest" and r: "(pos', rest', caps') \<in> set (ms (Star r) (p1, s1, c1))"
      by blast
    from "7.IH"(1) [OF m] obtain pre1 where a: "rest = pre1 @ s1 \<and> p1 = pos + length pre1" by auto
    from "7.IH"(2) [OF m refl refl l r] obtain pre2 where b: "s1 = pre2 @ rest' \<and> pos' = p1 + length pre2"
      by auto
    have "fst (snd (pos, rest, caps)) = (pre1 @ pre2) @ rest' \<and> pos' = fst (pos, rest, caps) + length (pre1 @ pre2)"
      using a b by simp
    then show ?thesis by blast
  qed
next
  case (8 r pos rest caps)
  show ?case
  proof (cases "(pos', rest', caps') = (pos, rest, caps)")
    case True
    then show ?thesis by simp
  next
    case False
    with ms_LazyStar_mem [OF "8.prems"] obtain p1 s1 c1 where m: "(p1, s1, c1) \<in> set (ms r (pos, rest, caps))"
      and l: "length s1 < length rest" and r: "(pos', rest', caps') \<in> set (ms (LazyStar r) (p1, s1, c1))"
      by blast
    from "8.IH"(1) [OF m] obtain pre1 where a: "rest = pre1 @ s1 \<and> p1 = pos + length pre1" by auto
    from "8.IH"(2) [OF m refl refl l r] obtain pre2 where b: "s1 = pre2 @ rest' \<and> pos' = p1 + length pre2"
      by auto
    have "fst (snd (pos, rest, caps)) = (pre1 @ pre2) @ rest' \<and> pos' = fst (pos, rest, caps) + length (pre1 @ pre2)"
      using a b by simp
    then show ?thesis by blast
  qed
next
  case (9 r st)
  then show ?case by (auto simp: ms.simps(9))
next
  case (10 n r pos rest caps)
  then show ?case by (auto simp: ms.simps(10))
qed

lemma search_suffix:
  "search r pos rest = Some (start, pos', rest', caps) \<Longrightarrow>
   length rest' \<le> length rest \<and> (pos' \<noteq> start \<longrightarrow> length rest' < length rest)"
proof (induction rest arbitrary: pos)
  case Nil
  then have "(pos', rest', caps) \<in> set (ms r (pos, [], Map.empty))"
    by (auto split: list.splits)
  then show ?case
    using Nil ms_suffix [of pos' rest' caps r "(pos, [], Map.empty)"]
    by (auto split: list.splits)
next
  case (Cons c cs)
  show ?case
  proof (cases "ms r (pos, c # cs, Map.empty)")
    case Nil
    then have "search r (Suc pos) cs = Some (start, pos', rest', caps)"
      using Cons.prems by simp
    then show ?thesis using Cons.IH by fastforce
  next
    case (Cons st sts)
    then have "(pos', rest', caps) \<in> set (ms r (pos, c # cs, Map.empty))" and s: "start = pos"
      using Cons.prems by auto
    then obtain pre where p: "c # cs = pre @ rest'" "pos' = pos + length pre"
      using ms_suffix [of pos' rest' caps r "(pos, c # cs, Map.empty)"] by auto
    have "length (c # cs) = length pre + length rest'"
      using p(1) by (metis length_append)
    then show ?thesis
      using p(2) s by auto
  qed
qed

text \<open>The tests on the lengths in \<^const>\<open>matchAllFrom\<close> are always true.\<close>

lemma matchAllFrom_unguarded:
  "matchAllFrom r pos rest =
     (case search r pos rest of
        None \<Rightarrow> []
      | Some (start, pos', rest', caps) \<Rightarrow>
          caps #
          (if pos' = start then
             (case rest' of [] \<Rightarrow> [] | c # cs \<Rightarrow> matchAllFrom r (Suc pos') cs)
           else matchAllFrom r pos' rest'))"
proof (cases "search r pos rest")
  case None
  then show ?thesis
    by (subst matchAllFrom.simps) simp
next
  case (Some res)
  obtain start pos' rest' caps where res: "res = (start, pos', rest', caps)"
    by (cases res)
  have l: "length rest' \<le> length rest \<and> (pos' \<noteq> start \<longrightarrow> length rest' < length rest)"
    using Some res by (intro search_suffix [of r pos rest start pos' rest' caps]) simp
  show ?thesis
  proof (cases rest')
    case Nil
    then show ?thesis
      using Some res l by (subst matchAllFrom.simps) simp
  next
    case (Cons c cs)
    then have "length cs < length rest"
      using l by simp
    then show ?thesis
      using Some res l Cons by (subst matchAllFrom.simps) simp
  qed
qed


section \<open>Facts about the string operations\<close>

lemma dropWhile_all: "\<forall>x\<in>set xs. P x \<Longrightarrow> dropWhile P xs = []"
  by (induction xs) auto

lemma dropWhile_rev_prefix:
  "rev (dropWhile P (rev xs)) @ rev (takeWhile P (rev xs)) = xs"
proof -
  have "rev (takeWhile P (rev xs) @ dropWhile P (rev xs)) = xs"
    by simp
  then show ?thesis
    by (simp only: rev_append)
qed

lemma hd_rev_dropWhile_rev:
  assumes "rev (dropWhile P (rev xs)) \<noteq> []"
  shows "hd (rev (dropWhile P (rev xs))) = hd xs"
proof -
  have "hd (rev (dropWhile P (rev xs)) @ rev (takeWhile P (rev xs))) = hd (rev (dropWhile P (rev xs)))"
    using assms by (rule hd_append2)
  then show ?thesis
    by (simp only: dropWhile_rev_prefix)
qed

lemma trim_no_leading_space: "trim s = [] \<or> \<not> isSpace (hd (trim s))"
proof (cases "trim s = []")
  case True
  then show ?thesis by simp
next
  case False
  then have ne: "rev (dropWhile isSpace (rev (dropWhile isSpace s))) \<noteq> []"
    by (simp add: trim_def)
  then have "hd (trim s) = hd (dropWhile isSpace s)"
    unfolding trim_def by (rule hd_rev_dropWhile_rev)
  moreover have "dropWhile isSpace s \<noteq> []"
  proof
    assume "dropWhile isSpace s = []"
    then have "rev (dropWhile isSpace (rev (dropWhile isSpace s))) = []"
      by (simp only: rev.simps dropWhile.simps)
    with ne show False by simp
  qed
  ultimately show ?thesis
    by (simp add: hd_dropWhile)
qed

lemma trim_idem: "trim (trim s) = trim s"
proof -
  have "dropWhile isSpace (trim s) = trim s"
    using trim_no_leading_space [of s] by (simp add: dropWhile_eq_self_iff)
  then have "trim (trim s) = rev (dropWhile isSpace (rev (trim s)))"
    by (simp add: trim_def)
  also have "\<dots> = trim s"
    by (simp add: trim_def)
  finally show ?thesis .
qed

lemma set_trim: "set (trim s) \<subseteq> set s"
proof -
  have "set (dropWhile isSpace (rev (dropWhile isSpace s))) \<subseteq> set (rev (dropWhile isSpace s))"
    by (rule set_dropWhileD [THEN subsetI]) 
  also have "\<dots> \<subseteq> set s"
    using set_dropWhileD [of _ isSpace s] by auto
  finally show ?thesis
    by (simp add: trim_def)
qed

lemma removeChars_notin: "c \<in> set cs \<Longrightarrow> c \<notin> set (removeChars cs s)"
  by (simp add: removeChars_def)

section \<open>Facts about the operation pass\<close>

lemma descriptionStep_keeps:
  "typeOps (descriptionStep t st) = typeOps st"
  "braceCount (descriptionStep t st) = braceCount st"
  "inTypeBlock (descriptionStep t st) = inTypeBlock st"
  by (simp_all add: descriptionStep_def Let_def)

lemma parseField_keeps:
  "braceCount (parseField ot line t st) = braceCount st"
  "inTypeBlock (parseField ot line t st) = inTypeBlock st"
  by (simp_all add: parseField_def split: option.split)

lemma parseField_typeOps:
  "typeOps (parseField ot line t st) = typeOps st \<or>
   (\<exists>m. rmatch fieldRegex t = Some m \<and>
      typeOps (parseField ot line t st) = typeOps st @ [mkOperation ot (currentDescription st) line m])"
  by (auto simp: parseField_def split: option.split)

text \<open>A turn of the loop pushes at most one operation, made from a match of the field pattern on the trimmed line.\<close>

lemma opStep_typeOps:
  "typeOps (fst (opStep tn ot line st)) = typeOps st \<or>
   (\<exists>d m. rmatch fieldRegex (trim line) = Some m \<and>
      typeOps (fst (opStep tn ot line st)) = typeOps st @ [mkOperation ot d line m])"
proof -
  define R where "R x \<longleftrightarrow> x = typeOps st \<or>
     (\<exists>d m. rmatch fieldRegex (trim line) = Some m \<and> x = typeOps st @ [mkOperation ot d line m])" for x
  have pf: "R (typeOps (parseField ot line (trim line) s))" if "typeOps s = typeOps st" for s
    using parseField_typeOps [of ot line "trim line" s] that unfolding R_def by auto
  have r: "R (typeOps st)"
    by (simp add: R_def)
  have "R (typeOps (fst (opStep tn ot line st)))"
    unfolding opStep_def Let_def
    by (simp add: descriptionStep_keeps pf r)
  then show ?thesis
    by (simp add: R_def)
qed

lemma opStep_outside:
  assumes "\<not> inTypeBlock st" and "\<not> isHeader tn (trim line)"
  shows "\<not> snd (opStep tn ot line st) \<and> \<not> inTypeBlock (fst (opStep tn ot line st)) \<and>
         typeOps (fst (opStep tn ot line st)) = typeOps st"
  using assms unfolding opStep_def Let_def by simp

lemma opStep_enter:
  assumes "\<not> inTypeBlock st" and "inTypeBlock (fst (opStep tn ot line st))"
  shows "isHeader tn (trim line)"
  using assms opStep_outside [of st tn line ot] by blast

lemma opLoop_outside:
  "\<not> inTypeBlock st \<Longrightarrow> \<forall>l\<in>set ls. \<not> isHeader tn (trim l) \<Longrightarrow>
   typeOps (opLoop tn ot ls st) = typeOps st \<and> \<not> inTypeBlock (opLoop tn ot ls st)"
proof (induction ls arbitrary: st)
  case Nil
  then show ?case by simp
next
  case (Cons l ls)
  obtain st' brk where s: "opStep tn ot l st = (st', brk)"
    by (cases "opStep tn ot l st")
  have o: "\<not> brk \<and> \<not> inTypeBlock st' \<and> typeOps st' = typeOps st"
    using opStep_outside [of st tn l ot] Cons.prems s by simp
  then have "typeOps (opLoop tn ot ls st') = typeOps st' \<and> \<not> inTypeBlock (opLoop tn ot ls st')"
    using Cons.IH [of st'] Cons.prems by simp
  then show ?case
    using s o by simp
qed

lemma opLoop_all:
  assumes "\<And>d l m. l \<in> set ls \<Longrightarrow> rmatch fieldRegex (trim l) = Some m \<Longrightarrow> P (mkOperation ot d l m)"
  shows "\<forall>op\<in>set (typeOps st). P op \<Longrightarrow> \<forall>op\<in>set (typeOps (opLoop tn ot ls st)). P op"
  using assms
proof (induction ls arbitrary: st)
  case Nil
  then show ?case by simp
next
  case (Cons l ls)
  obtain st' brk where s: "opStep tn ot l st = (st', brk)"
    by (cases "opStep tn ot l st")
  have "typeOps st' = typeOps st \<or>
      (\<exists>d m. rmatch fieldRegex (trim l) = Some m \<and> typeOps st' = typeOps st @ [mkOperation ot d l m])"
    using opStep_typeOps [of tn ot l st] s by simp
  then have st': "\<forall>op\<in>set (typeOps st'). P op"
    using Cons.prems by auto
  show ?case
  proof (cases brk)
    case True
    then show ?thesis using s st' by simp
  next
    case False
    have "\<forall>op\<in>set (typeOps (opLoop tn ot ls st')). P op"
      using Cons.IH [OF st'] Cons.prems(2) by simp
    then show ?thesis using s False by simp
  qed
qed

lemma parseOperationsFromType_all:
  assumes "\<And>d l m. l \<in> set ls \<Longrightarrow> rmatch fieldRegex (trim l) = Some m \<Longrightarrow> P (mkOperation ot d l m)"
  shows "\<forall>op\<in>set (parseOperationsFromType ls tn ot). P op"
  unfolding parseOperationsFromType_def
  by (rule opLoop_all) (use assms in \<open>simp_all add: initOpState_def\<close>)

section \<open>Facts about the type pass\<close>

lemma countBraces_keeps:
  "typeDefs (countBraces line st) = typeDefs st"
  "currentType (countBraces line st) = currentType st"
  "inType (countBraces line st) = inType st"
  "typeContent (countBraces line st) = typeContent st"
  by (simp_all add: countBraces_def Let_def)

lemma pushCurrent_keeps:
  "typeDefs (pushCurrent ct st) = typeDefs st @ [ct\<lparr>ty_content := join [CHR 0x0A] (typeContent st)\<rparr>]"
  "currentType (pushCurrent ct st) = currentType st"
  "inType (pushCurrent ct st) = inType st"
  by (simp_all add: pushCurrent_def)

lemma typeInv_pushCurrent:
  assumes c: "\<And>t c. Q t \<Longrightarrow> Q (t\<lparr>ty_content := c\<rparr>)"
    and "typeInv Q st" and "currentType st = Some ct"
  shows "typeInv Q (pushCurrent ct st)"
  using assms(2,3) c [of ct] by (auto simp: typeInv_def list_all_iff pushCurrent_keeps)

lemma typeInv_openType:
  assumes c: "\<And>t c. Q t \<Longrightarrow> Q (t\<lparr>ty_content := c\<rparr>)"
    and n: "\<And>n k d. \<not> isReserved n \<Longrightarrow>
           Q \<lparr>ty_name = n, ty_kind = k, ty_description = orUndefined (trim d), ty_content = []\<rparr>"
    and i: "typeInv Q st"
  shows "typeInv Q (openType line trimmed st)"
proof (cases "rmatch typeRegex trimmed")
  case None
  then show ?thesis using i by (simp add: openType_def)
next
  case (Some m)
  show ?thesis
  proof (cases "isReserved (grp m 2)")
    case True
    then show ?thesis using i Some by (simp add: openType_def)
  next
    case False
    define st1 where "st1 = (case currentType st of Some ct \<Rightarrow> pushCurrent ct st | None \<Rightarrow> st)"
    have "typeInv Q st1"
      using i typeInv_pushCurrent [OF c i] by (auto simp: st1_def split: option.split)
    then have "\<forall>t\<in>set (typeDefs st1). Q t"
      by (simp add: typeInv_def list_all_iff)
    then show ?thesis
      using Some False n [OF False]
      by (simp add: openType_def Let_def typeInv_def list_all_iff countBraces_keeps st1_def)
  qed
qed

lemma typeInv_continueType:
  assumes c: "\<And>t c. Q t \<Longrightarrow> Q (t\<lparr>ty_content := c\<rparr>)"
    and i: "typeInv Q st" and ct: "currentType st = Some ct"
  shows "typeInv Q (continueType line ct st)"
  using i ct c [of ct]
  by (auto simp: continueType_def Let_def typeInv_def list_all_iff countBraces_keeps pushCurrent_keeps)

lemma typeInv_typeStep:
  assumes c: "\<And>t c. Q t \<Longrightarrow> Q (t\<lparr>ty_content := c\<rparr>)"
    and n: "\<And>n k d. \<not> isReserved n \<Longrightarrow>
           Q \<lparr>ty_name = n, ty_kind = k, ty_description = orUndefined (trim d), ty_content = []\<rparr>"
    and i: "typeInv Q st"
  shows "typeInv Q (typeStep line st)"
proof -
  have o: "typeInv Q (openType line (trim line) st)"
    using c n i by (rule typeInv_openType)
  have k: "typeInv Q (continueType line ct st)" if "currentType st = Some ct" for ct
    using c i that by (rule typeInv_continueType)
  have d: "typeInv Q (st\<lparr>tCurrentDescription := x\<rparr>)" for x
    using i by (simp add: typeInv_def list_all_iff)
  show ?thesis
    using i o k d by (simp add: typeStep_def Let_def split: option.split)
qed

lemma typeInv_fold:
  assumes c: "\<And>t c. Q t \<Longrightarrow> Q (t\<lparr>ty_content := c\<rparr>)"
    and n: "\<And>n k d. \<not> isReserved n \<Longrightarrow>
           Q \<lparr>ty_name = n, ty_kind = k, ty_description = orUndefined (trim d), ty_content = []\<rparr>"
  shows "typeInv Q st \<Longrightarrow> typeInv Q (fold typeStep ls st)"
proof (induction ls arbitrary: st)
  case Nil
  then show ?case by simp
next
  case (Cons l ls)
  have "typeInv Q (typeStep l st)"
    using c n Cons.prems by (rule typeInv_typeStep)
  then show ?case
    using Cons.IH by simp
qed

lemma parseTypes_all:
  assumes c: "\<And>t c. Q t \<Longrightarrow> Q (t\<lparr>ty_content := c\<rparr>)"
    and n: "\<And>n k d. \<not> isReserved n \<Longrightarrow>
           Q \<lparr>ty_name = n, ty_kind = k, ty_description = orUndefined (trim d), ty_content = []\<rparr>"
  shows "\<forall>t\<in>set (parseTypes ls). Q t"
proof -
  have "typeInv Q initTypeState"
    by (simp add: typeInv_def list_all_iff initTypeState_def)
  then have i: "typeInv Q (fold typeStep ls initTypeState)"
    using c n typeInv_fold by blast
  show ?thesis
  proof (cases "currentType (fold typeStep ls initTypeState)")
    case None
    then show ?thesis using i by (simp add: parseTypes_def typeInv_def list_all_iff)
  next
    case (Some ct)
    then have "typeInv Q (pushCurrent ct (fold typeStep ls initTypeState))"
      using c i typeInv_pushCurrent by blast
    then show ?thesis using Some by (simp add: parseTypes_def typeInv_def list_all_iff)
  qed
qed

section \<open>Lines that the passes skip, and what an operation holds\<close>

lemma opStep_idle:
  assumes "opIdle st" and "\<not> isHeader tn (trim line)"
  shows "opStep tn ot line st = (st, False)"
  using assms unfolding opStep_def Let_def opIdle_def by simp

lemma opStep_header:
  assumes "isHeader tn (trim line)" and "trim line \<noteq> []"
  shows "inTypeBlock (fst (opStep tn ot line st)) \<and> \<not> snd (opStep tn ot line st)"
  using assms unfolding opStep_def Let_def by simp

lemma isHeader_nonempty: "isHeader tn t \<Longrightarrow> t \<noteq> []"
  by (cases tn) (auto simp: isHeader_def startsWith_def)

lemma opStep_inside:
  assumes "inTypeBlock st"
  shows "snd (opStep tn ot line st) \<or> inTypeBlock (fst (opStep tn ot line st))"
  using assms unfolding opStep_def Let_def
  by (simp add: descriptionStep_keeps parseField_keeps)

lemma opStep_reach:
  assumes "opIdle st \<or> inTypeBlock st" and "opStep tn ot line st = (st', False)"
  shows "opIdle st' \<or> inTypeBlock st'"
proof (cases "inTypeBlock st")
  case True
  then show ?thesis using opStep_inside [of st tn ot line] assms(2) by simp
next
  case False
  then have i: "opIdle st" using assms(1) by simp
  show ?thesis
  proof (cases "isHeader tn (trim line)")
    case True
    then show ?thesis
      using opStep_header [of tn line ot st] isHeader_nonempty [of tn "trim line"] assms(2) by simp
  next
    case False
    then show ?thesis using opStep_idle [OF i False, of ot] assms(2) i by simp
  qed
qed

lemma opLoop_append:
  "opLoop tn ot (pre @ rest) st =
     (if opBroke tn ot pre st then opLoop tn ot pre st else opLoop tn ot rest (opLoop tn ot pre st))"
  by (induction pre arbitrary: st) (auto split: prod.split)

lemma opLoop_outside_cases:
  "opIdle st \<or> inTypeBlock st \<Longrightarrow> \<not> inTypeBlock (opLoop tn ot pre st) \<Longrightarrow>
   opBroke tn ot pre st \<or> opIdle (opLoop tn ot pre st)"
proof (induction pre arbitrary: st)
  case Nil
  then show ?case by simp
next
  case (Cons l ls)
  obtain st' brk where s: "opStep tn ot l st = (st', brk)"
    by (cases "opStep tn ot l st")
  show ?case
  proof (cases brk)
    case True
    then show ?thesis using s by simp
  next
    case False
    then have "opIdle st' \<or> inTypeBlock st'"
      using opStep_reach [of st tn ot l st'] Cons.prems(1) s by simp
    moreover have "\<not> inTypeBlock (opLoop tn ot ls st')"
      using Cons.prems(2) s False by simp
    ultimately have "opBroke tn ot ls st' \<or> opIdle (opLoop tn ot ls st')"
      by (rule Cons.IH)
    then show ?thesis using s False by simp
  qed
qed

lemma opLoop_idle_block:
  "opIdle st \<Longrightarrow> \<forall>l\<in>set block. \<not> isHeader tn (trim l) \<Longrightarrow>
   opLoop tn ot block st = st \<and> \<not> opBroke tn ot block st"
  by (induction block) (simp_all add: opStep_idle)

lemma opLoop_skip_block:
  assumes o: "\<not> inTypeBlock (opLoop tn ot pre initOpState)"
    and b: "\<forall>l\<in>set block. \<not> isHeader tn (trim l)"
  shows "opLoop tn ot (pre @ block @ post) initOpState = opLoop tn ot (pre @ post) initOpState"
proof -
  have "opIdle initOpState"
    by (simp add: opIdle_def initOpState_def)
  then have c: "opBroke tn ot pre initOpState \<or> opIdle (opLoop tn ot pre initOpState)"
    using o opLoop_outside_cases by blast
  show ?thesis
  proof (cases "opBroke tn ot pre initOpState")
    case True
    then show ?thesis by (simp add: opLoop_append)
  next
    case False
    then have i: "opIdle (opLoop tn ot pre initOpState)" using c by simp
    have "opLoop tn ot (block @ post) (opLoop tn ot pre initOpState)
        = opLoop tn ot post (opLoop tn ot pre initOpState)"
      using opLoop_idle_block [OF i b, of ot] by (simp add: opLoop_append)
    then show ?thesis
      using False by (simp add: opLoop_append)
  qed
qed


lemma typeStep_skip:
  assumes "\<not> inType st" and "opensNoDefinition line"
  shows "typeDefs (typeStep line st) = typeDefs st \<and> currentType (typeStep line st) = currentType st
         \<and> \<not> inType (typeStep line st)"
  using assms
  by (auto simp: typeStep_def Let_def opensNoDefinition_def openType_def
           split: option.split if_splits)

lemma fold_typeStep_skip:
  "\<not> inType st \<Longrightarrow> \<forall>l\<in>set block. opensNoDefinition l \<Longrightarrow>
   typeDefs (fold typeStep block st) = typeDefs st \<and>
   currentType (fold typeStep block st) = currentType st \<and> \<not> inType (fold typeStep block st)"
proof (induction block arbitrary: st)
  case Nil
  then show ?case by simp
next
  case (Cons l ls)
  have s: "typeDefs (typeStep l st) = typeDefs st \<and> currentType (typeStep l st) = currentType st
         \<and> \<not> inType (typeStep l st)"
    using Cons.prems by (simp add: typeStep_skip)
  then have "typeDefs (fold typeStep ls (typeStep l st)) = typeDefs (typeStep l st) \<and>
   currentType (fold typeStep ls (typeStep l st)) = currentType (typeStep l st) \<and>
   \<not> inType (fold typeStep ls (typeStep l st))"
    using Cons.IH [of "typeStep l st"] Cons.prems(2) by simp
  then show ?case
    using s by simp
qed

lemma parseTypes_skip:
  assumes "\<forall>l\<in>set ls. opensNoDefinition l"
  shows "parseTypes ls = []"
  using fold_typeStep_skip [of initTypeState ls] assms
  by (simp add: parseTypes_def initTypeState_def)

lemma mkOperation_description:
  "descriptionOk (op_description (mkOperation ot d line m))"
  by (simp add: mkOperation_def Let_def descriptionOk_def orUndefined_def trim_idem)

lemma mkOperation_returnType:
  "op_returnType (mkOperation ot d line m)
     = trim (removeChars ''!,'' (trim (removeFirst braceTailRegex (trim (grp m 3)))))"
  by (simp add: mkOperation_def Let_def)

lemma mkOperation_content: "op_content (mkOperation ot d line m) = trim line"
  by (simp add: mkOperation_def Let_def)

lemma mkOperation_parameters:
  "op_parameters (mkOperation ot d line m) = None \<or>
   op_parameters (mkOperation ot d line m) = Some (parseParameters (grp m 2))"
  by (simp add: mkOperation_def Let_def)

lemma returnType_clean:
  "CHR ''!'' \<notin> set (trim (removeChars ''!,'' s)) \<and> CHR '','' \<notin> set (trim (removeChars ''!,'' s))"
  using set_trim [of "removeChars ''!,'' s"] removeChars_notin [of "CHR ''!''" "''!,''" s]
    removeChars_notin [of "CHR '',''" "''!,''" s]
  by auto

section \<open>The passes do not depend on the white space around a line\<close>

lemma mem_trim:
  assumes "\<not> isSpace c"
  shows "c \<in> set (trim s) \<longleftrightarrow> c \<in> set s"
proof
  assume "c \<in> set (trim s)"
  then show "c \<in> set s" using set_trim by blast
next
  assume c: "c \<in> set s"
  have "set s = set (takeWhile isSpace s) \<union> set (dropWhile isSpace s)"
    by (metis set_append takeWhile_dropWhile_id)
  moreover have "c \<notin> set (takeWhile isSpace s)"
    using assms set_takeWhileD by fastforce
  ultimately have d: "c \<in> set (dropWhile isSpace s)"
    using c by blast
  have "set (dropWhile isSpace s) =
      set (trim s) \<union> set (rev (takeWhile isSpace (rev (dropWhile isSpace s))))"
    unfolding trim_def by (metis set_append dropWhile_rev_prefix)
  moreover have "c \<notin> set (rev (takeWhile isSpace (rev (dropWhile isSpace s))))"
    using assms set_takeWhileD by fastforce
  ultimately show "c \<in> set (trim s)"
    using d by blast
qed

lemma includesChar_trim:
  "includesChar (trim s) CHR ''{'' = includesChar s CHR ''{''"
  "includesChar (trim s) CHR ''}'' = includesChar s CHR ''}''"
  "includesChar (trim s) CHR ''!'' = includesChar s CHR ''!''"
  by (simp_all add: includesChar_def mem_trim isSpace_def)

lemma mkOperation_trim: "mkOperation ot d (trim line) m = mkOperation ot d line m"
  by (simp add: mkOperation_def Let_def trim_idem)

lemma parseField_trim: "parseField ot (trim line) t st = parseField ot line t st"
  by (simp add: parseField_def mkOperation_trim split: option.split)

lemma opStep_trim: "opStep tn ot (trim line) st = opStep tn ot line st"
  unfolding opStep_def Let_def
  by (simp only: trim_idem includesChar_trim parseField_trim)

lemma opLoop_trim: "opLoop tn ot (map trim ls) st = opLoop tn ot ls st"
  by (induction ls arbitrary: st) (simp_all add: opStep_trim split: prod.split)

lemma opensNoDefinition_trim: "opensNoDefinition (trim line) = opensNoDefinition line"
  by (simp add: opensNoDefinition_def trim_idem)

section \<open>Blank lines, header lines and the entries of the type pass\<close>

lemma trim_no_trailing_space: "trim s = [] \<or> \<not> isSpace (last (trim s))"
proof (cases "trim s = []")
  case True
  then show ?thesis by simp
next
  case False
  then have ne: "dropWhile isSpace (rev (dropWhile isSpace s)) \<noteq> []"
    by (simp add: trim_def)
  have "last (trim s) = hd (dropWhile isSpace (rev (dropWhile isSpace s)))"
    using ne by (simp add: trim_def last_rev)
  then show ?thesis
    using ne by (simp add: hd_dropWhile)
qed

lemma opStep_blank:
  assumes "trim line = []" and "opPlain st"
  shows "opStep tn ot line st = (st, False)"
  using assms unfolding opStep_def Let_def opPlain_def by simp

lemma parseField_plain:
  "opPlain st \<Longrightarrow> opPlain (parseField ot line t st)"
  by (simp add: parseField_def opPlain_def split: option.split)

lemma opStep_plain:
  assumes "opPlain st" and "\<not> isDescLine (trim line)"
  shows "opPlain (fst (opStep tn ot line st))"
proof -
  have p: "opPlain (parseField ot line (trim line) s)" if "opPlain s" for s
    using that by (rule parseField_plain)
  have b: "opPlain (s\<lparr>braceCount := x\<rparr>)" "opPlain (s\<lparr>inTypeBlock := y\<rparr>)" if "opPlain s" for s x y
    using that by (simp_all add: opPlain_def)
  have h: "opPlain (s\<lparr>inTypeBlock := True, braceCount := x, currentDescription := [],
                      descriptionLines := [], inDescription := False\<rparr>)" for s x
    by (simp add: opPlain_def)
  have r: "opPlain (s\<lparr>currentDescription := [], descriptionLines := []\<rparr>)" if "opPlain s" for s
    using that by (simp add: opPlain_def)
  have n: "\<not> inDescription st"
    using assms(1) by (simp add: opPlain_def)
  show ?thesis
    using assms unfolding opStep_def Let_def
    by (simp add: p b h r n)
qed

lemma opLoop_filter_blank:
  "opPlain st \<Longrightarrow> \<forall>l\<in>set ls. \<not> isDescLine (trim l) \<Longrightarrow>
   opLoop tn ot (filter (\<lambda>l. trim l \<noteq> []) ls) st = opLoop tn ot ls st"
proof (induction ls arbitrary: st)
  case Nil
  then show ?case by simp
next
  case (Cons l ls)
  show ?case
  proof (cases "trim l = []")
    case True
    then show ?thesis
      using Cons by (simp add: opStep_blank)
  next
    case False
    obtain st' brk where s: "opStep tn ot l st = (st', brk)"
      by (cases "opStep tn ot l st")
    have "opPlain st'"
      using opStep_plain [of st l tn ot] Cons.prems s by simp
    then have "opLoop tn ot (filter (\<lambda>l. trim l \<noteq> []) ls) st' = opLoop tn ot ls st'"
      using Cons.IH Cons.prems(2) by simp
    then show ?thesis
      using False s by simp
  qed
qed

lemma typeStep_blank: "trim line = [] \<Longrightarrow> typeStep line st = st"
  by (simp add: typeStep_def)

lemma fold_typeStep_filter_blank:
  "fold typeStep (filter (\<lambda>l. trim l \<noteq> []) ls) st = fold typeStep ls st"
  by (induction ls arbitrary: st) (simp_all add: typeStep_blank)

lemma startsWith_append: "startsWith h p \<Longrightarrow> h = p @ drop (length p) h"
  by (metis append_take_drop_id startsWith_def)

lemma typeRegex_Query:
  "\<exists>m. rmatch typeRegex ''type Query'' = Some m \<and> grp m 2 = ''Query''"
  "\<exists>m. rmatch typeRegex (''type Query '' @ t) = Some m \<and> grp m 2 = ''Query''"
  "\<exists>m. rmatch typeRegex (''type Query{'' @ t) = Some m \<and> grp m 2 = ''Query''"
  by (simp_all add: typeRegex_def rmatch_def grp_def Plus_def ms.simps isSpace_def isWord_def)

lemma isHeader_Query_cases:
  assumes "isHeader Query h"
  shows "h = ''type Query'' \<or> (\<exists>t. h = ''type Query '' @ t) \<or> (\<exists>t. h = ''type Query{'' @ t)"
proof -
  from assms consider (a) "h = ''type Query''" | (b) "startsWith h ''type Query ''"
    | (c) "startsWith h ''type Query{''"
    by (auto simp: isHeader_def)
  then show ?thesis
  proof cases
    case a
    then show ?thesis by simp
  next
    case b
    then have "h = ''type Query '' @ drop (length ''type Query '') h"
      by (rule startsWith_append)
    then show ?thesis by blast
  next
    case c
    then have "h = ''type Query{'' @ drop (length ''type Query{'') h"
      by (rule startsWith_append)
    then show ?thesis by blast
  qed
qed

lemma header_opensNoDefinition:
  assumes "isHeader Query h" and "trim h = h"
  shows "opensNoDefinition h"
proof -
  have "\<exists>m. rmatch typeRegex h = Some m \<and> grp m 2 = ''Query''"
    using isHeader_Query_cases [OF assms(1)] typeRegex_Query by blast
  then obtain m where "rmatch typeRegex h = Some m" and "grp m 2 = ''Query''"
    by blast
  then show ?thesis
    using assms(2) by (simp add: opensNoDefinition_def isReserved_def)
qed

lemma header_not_Mutation:
  assumes "isHeader Query h"
  shows "\<not> isHeader Mutation h"
proof -
  have "\<not> isHeader Mutation ''type Query''"
    by (simp add: isHeader_def startsWith_def)
  moreover have "\<not> isHeader Mutation (''type Query '' @ t)" for t
    by (simp add: isHeader_def startsWith_def)
  moreover have "\<not> isHeader Mutation (''type Query{'' @ t)" for t
    by (simp add: isHeader_def startsWith_def)
  ultimately show ?thesis
    using isHeader_Query_cases [OF assms] by blast
qed

lemma header_not_descLine:
  assumes "isHeader Query h"
  shows "\<not> isDescLine h"
proof -
  have "\<not> isDescLine ''type Query''"
    by (simp add: isDescLine_def startsWith_def tripleQuote_def)
  moreover have "\<not> isDescLine (''type Query '' @ t)" for t
    by (simp add: isDescLine_def startsWith_def tripleQuote_def)
  moreover have "\<not> isDescLine (''type Query{'' @ t)" for t
    by (simp add: isDescLine_def startsWith_def tripleQuote_def)
  ultimately show ?thesis
    using isHeader_Query_cases [OF assms] by blast
qed

lemma opStep_Query_header:
  assumes "isHeader Query h" and "trim h = h"
  shows "opStep Query query h initOpState =
           (\<lparr>typeOps = [], inTypeBlock = True,
             braceCount = (if CHR ''{'' \<in> set h then 1 else 0),
             currentDescription = [], descriptionLines = [], inDescription = False\<rparr>, False)"
  using assms isHeader_nonempty [OF assms(1)]
  unfolding opStep_def Let_def by (simp add: initOpState_def includesChar_def)

lemma blank_line_facts:
  "\<not> isHeader tn []" "\<not> isDescLine []" "trim l = [] \<Longrightarrow> opensNoDefinition l"
  using isHeader_nonempty [of tn "[]"]
  by (auto simp: isDescLine_def startsWith_def tripleQuote_def opensNoDefinition_def
        isDefinitionLine_def)

lemma definitionLine_not_desc:
  assumes "isDefinitionLine t"
  shows "\<not> isDescLine t \<and> t \<noteq> []"
proof -
  have k: "\<not> isDescLine (p @ x) \<and> p @ x \<noteq> []"
    if "p \<in> {''type '', ''interface '', ''enum '', ''scalar '', ''union '', ''input ''}" for p x
    using that by (auto simp: isDescLine_def startsWith_def tripleQuote_def)
  from assms obtain p where p: "p \<in> {''type '', ''interface '', ''enum '', ''scalar '', ''union '', ''input ''}"
    and s: "startsWith t p"
    unfolding isDefinitionLine_def by blast
  have "t = p @ drop (length p) t"
    using s by (rule startsWith_append)
  then show ?thesis
    using k [OF p, of "drop (length p) t"] by simp
qed

lemma typeEntries_simps:
  "typeEntries (st\<lparr>tCurrentDescription := x\<rparr>) = typeEntries st"
  "typeEntries (countBraces line st) = typeEntries st"
  by (simp_all add: typeEntries_def countBraces_keeps)

lemma continueType_entries:
  "currentType st = Some ct \<Longrightarrow> typeEntries (continueType line ct st) = typeEntries st"
  by (simp add: continueType_def Let_def typeEntries_def countBraces_keeps pushCurrent_keeps)

lemma openType_entries:
  "typeEntries (openType line (trim line) st) =
     typeEntries st @
     (case rmatch typeRegex (trim line) of
        None \<Rightarrow> []
      | Some m \<Rightarrow> if isReserved (grp m 2) then [] else [(grp m 2, grp m 1)])"
  by (simp add: openType_def Let_def typeEntries_def countBraces_keeps pushCurrent_keeps
        split: option.split)

lemma typeStep_entries: "typeEntries (typeStep line st) = typeEntries st @ openedBy line"
proof (cases "isDefinitionLine (trim line)")
  case True
  then show ?thesis
    using definitionLine_not_desc [OF True]
    by (simp add: typeStep_def openedBy_def openType_entries)
next
  case False
  then show ?thesis
    by (simp add: typeStep_def Let_def openedBy_def typeEntries_simps continueType_entries
          split: option.split)
qed

lemma fold_typeStep_entries:
  "typeEntries (fold typeStep ls st) = typeEntries st @ concat (map openedBy ls)"
  by (induction ls arbitrary: st) (simp_all add: typeStep_entries)

lemma parseTypes_entries:
  "map (\<lambda>t. (ty_name t, ty_kind t)) (parseTypes ls) = concat (map openedBy ls)"
proof -
  have a: "map (\<lambda>t. (ty_name t, ty_kind t)) (parseTypes ls)
      = typeEntries (fold typeStep ls initTypeState)"
    by (simp add: parseTypes_def Let_def typeEntries_def pushCurrent_keeps split: option.split)
  have b: "typeEntries initTypeState = []"
    by (simp add: typeEntries_def initTypeState_def)
  show ?thesis
    unfolding a fold_typeStep_entries b by simp
qed

section \<open>From the passes to the callback\<close>

lemma parseSchema_ops:
  "set (fst (parseSchema schema)) \<subseteq>
     (case schema of JSString s \<Rightarrow>
        set (parseOperationsFromType (splitLines s) Query query) \<union>
        set (parseOperationsFromType (splitLines s) Mutation mutation)
      | _ \<Rightarrow> {})"
  by (cases schema) (simp_all add: parseSchema_def Let_def)

lemma parseSchema_types:
  "set (snd (parseSchema schema)) \<subseteq>
     (case schema of JSString s \<Rightarrow> set (parseTypes (splitLines s)) | _ \<Rightarrow> {})"
  by (cases schema) (simp_all add: parseSchema_def Let_def)

lemma parseSchema_ops_all:
  assumes "\<And>ot d l m. P (mkOperation ot d l m)"
  shows "\<forall>op\<in>set (fst (parseSchema schema)). P op"
proof (cases schema)
  case (JSString s)
  have "\<forall>op\<in>set (parseOperationsFromType (splitLines s) tn ot). P op" for tn ot
    by (rule parseOperationsFromType_all) (rule assms)
  then show ?thesis
    using parseSchema_ops [of schema] JSString by auto
qed (simp_all add: parseSchema_def)

lemma parseSchema_types_all:
  assumes c: "\<And>t c. Q t \<Longrightarrow> Q (t\<lparr>ty_content := c\<rparr>)"
    and n: "\<And>n k d. \<not> isReserved n \<Longrightarrow>
           Q \<lparr>ty_name = n, ty_kind = k, ty_description = orUndefined (trim d), ty_content = []\<rparr>"
  shows "\<forall>t\<in>set (snd (parseSchema schema)). Q t"
proof (cases schema)
  case (JSString s)
  have "\<forall>t\<in>set (parseTypes (splitLines s)). Q t"
    using c n by (rule parseTypes_all)
  then show ?thesis
    using parseSchema_types [of schema] JSString by auto
qed (simp_all add: parseSchema_def)

section \<open>C1: a triple-quoted description line above a field\<close>

text \<open>
  C1. A single-line triple-quoted description directly above a field of the root block is
  the description of that field's Operation; with a blank line in between the Operation has
  no description.

  The code does not attach it. On a line that starts and ends with the triple quote the
  branch for description lines pushes the text to \<^verbatim>\<open>descriptionLines\<close> and sets
  \<^verbatim>\<open>inDescription\<close> back to false; the buffer is copied to \<^verbatim>\<open>currentDescription\<close> only
  under \<^verbatim>\<open>inDescription\<close>, so the field that follows is pushed without a description. The
  same text written as a \<^verbatim>\<open>#\<close> comment is attached. The theorem runs the callback on both
  schemas, and on the first one with a blank line above the field.
\<close>

theorem triple_quoted_description_dropped:
  "parseSchema (JSString (''type Query {\<newline>  '' @ tripleQuote @ ''Fetches a widget by id'' @ tripleQuote
        @ ''\<newline>  widget(id: ID!): Widget\<newline>}''))
     = ([\<lparr>op_name = ''widget'', op_type = query, op_description = None,
          op_parameters = Some [\<lparr>p_name = ''id'', p_type = ''ID'', p_required = True\<rparr>],
          op_returnType = ''Widget'', op_content = ''widget(id: ID!): Widget''\<rparr>], [])
   \<and> parseSchema (JSString ''type Query {\<newline>  # Fetches a widget by id\<newline>  widget(id: ID!): Widget\<newline>}'')
     = ([\<lparr>op_name = ''widget'', op_type = query, op_description = Some ''Fetches a widget by id'',
          op_parameters = Some [\<lparr>p_name = ''id'', p_type = ''ID'', p_required = True\<rparr>],
          op_returnType = ''Widget'', op_content = ''widget(id: ID!): Widget''\<rparr>], [])
   \<and> parseSchema (JSString (''type Query {\<newline>  '' @ tripleQuote @ ''Fetches a widget by id'' @ tripleQuote
        @ ''\<newline>\<newline>  widget(id: ID!): Widget\<newline>}''))
     = ([\<lparr>op_name = ''widget'', op_type = query, op_description = None,
          op_parameters = Some [\<lparr>p_name = ''id'', p_type = ''ID'', p_required = True\<rparr>],
          op_returnType = ''Widget'', op_content = ''widget(id: ID!): Widget''\<rparr>], [])"
  by code_simp

section \<open>C2: a single field inside the Query block\<close>

text \<open>
  C2, as stated, includes the form in which the header, the field and the closing brace
  share one line. The header line is left by \<^verbatim>\<open>continue\<close>, so a field on it is never read:
  the callback returns no Operation for that form.
\<close>

theorem one_line_query_counterexample:
  "parseSchema (JSString ''type Query { foo: Bar }'') = ([], [])"
  by code_simp

lemma single_field_rest:
  "opLoop Query query [''foo: Bar'', ''}'']
     \<lparr>typeOps = [], inTypeBlock = True, braceCount = 1,
      currentDescription = [], descriptionLines = [], inDescription = False\<rparr>
   = \<lparr>typeOps = [\<lparr>op_name = ''foo'', op_type = query, op_description = None, op_parameters = None,
         op_returnType = ''Bar'', op_content = ''foo: Bar''\<rparr>], inTypeBlock = False, braceCount = 0,
      currentDescription = [], descriptionLines = [], inDescription = False\<rparr>"
  "opLoop Query query [''{'', ''foo: Bar'', ''}'']
     \<lparr>typeOps = [], inTypeBlock = True, braceCount = 0,
      currentDescription = [], descriptionLines = [], inDescription = False\<rparr>
   = \<lparr>typeOps = [\<lparr>op_name = ''foo'', op_type = query, op_description = None, op_parameters = None,
         op_returnType = ''Bar'', op_content = ''foo: Bar''\<rparr>], inTypeBlock = False, braceCount = 0,
      currentDescription = [], descriptionLines = [], inDescription = False\<rparr>"
  "list_all (\<lambda>l. \<not> isHeader Mutation l \<and> opensNoDefinition l \<and> \<not> isDescLine l)
     [''{'', ''foo: Bar'', ''}'']"
  by code_simp+

text \<open>
  C2, amended. Let the lines of the schema that are not blank be, trimmed: a header line of
  the Query block (\<^verbatim>\<open>type Query\<close>, alone or followed by a space or an opening brace), a line
  with only the opening brace when the header line holds none, the field \<^verbatim>\<open>foo: Bar\<close> on a
  line of its own, and the closing brace on a line of its own. Then the Operation list has
  exactly one entry, with name foo, type query, return type Bar, no parameters and no
  description, and the TypeDefinition list is empty. White space around the lines, CR LF line
  ends, blank lines and a final line feed make no difference.
\<close>

theorem single_field_query:
  assumes h: "isHeader Query h"
    and ls: "map trim (filter (\<lambda>l. trim l \<noteq> []) (splitLines s)) =
               (if CHR ''{'' \<in> set h then [h, ''foo: Bar'', ''}'']
                else [h, ''{'', ''foo: Bar'', ''}''])"
  shows "parseSchema (JSString s)
         = ([\<lparr>op_name = ''foo'', op_type = query, op_description = None, op_parameters = None,
              op_returnType = ''Bar'', op_content = ''foo: Bar''\<rparr>], [])"
proof -
  define lines where "lines = splitLines s"
  define T where "T = map trim (filter (\<lambda>l. trim l \<noteq> []) lines)"
  have T: "T = (if CHR ''{'' \<in> set h then [h, ''foo: Bar'', ''}'']
                else [h, ''{'', ''foo: Bar'', ''}''])"
    using ls by (simp add: T_def lines_def)
  have ne: "s \<noteq> []"
  proof
    assume "s = []"
    then have "T = []" by (simp add: T_def lines_def trim_def)
    then show False using T by (simp split: if_splits)
  qed
  have "h \<in> set T"
    using T by (simp split: if_splits)
  then have th: "trim h = h"
    by (auto simp: T_def trim_idem)
  have Q: "\<not> isHeader Mutation x \<and> opensNoDefinition x \<and> \<not> isDescLine x" if "x \<in> set T" for x
  proof (cases "x = h")
    case True
    then show ?thesis
      using header_not_Mutation [OF h] header_opensNoDefinition [OF h th] header_not_descLine [OF h]
      by simp
  next
    case False
    then have "x \<in> set [''{'', ''foo: Bar'', ''}'']"
      using that T by (auto split: if_splits)
    then show ?thesis
      using single_field_rest(3) by (auto simp: list_all_iff)
  qed
  have A: "\<not> isHeader Mutation (trim l) \<and> opensNoDefinition l \<and> \<not> isDescLine (trim l)"
    if "l \<in> set lines" for l
  proof (cases "trim l = []")
    case True
    then show ?thesis by (simp add: blank_line_facts)
  next
    case False
    then have "trim l \<in> set T"
      using that by (simp add: T_def)
    then show ?thesis
      using Q [of "trim l"] by (simp add: opensNoDefinition_trim)
  qed
  have m: "parseOperationsFromType lines Mutation mutation = []"
    using opLoop_outside [of initOpState lines Mutation mutation] A
    by (simp add: parseOperationsFromType_def initOpState_def)
  have t: "parseTypes lines = []"
    using A by (intro parseTypes_skip) simp
  have "opLoop Query query lines initOpState
      = opLoop Query query (filter (\<lambda>l. trim l \<noteq> []) lines) initOpState"
    using A by (intro opLoop_filter_blank [symmetric]) (simp_all add: opPlain_def initOpState_def)
  also have "\<dots> = opLoop Query query T initOpState"
    by (simp add: T_def opLoop_trim)
  finally have e: "opLoop Query query lines initOpState = opLoop Query query T initOpState" .
  have hd: "opLoop Query query (h # rest) initOpState =
      opLoop Query query rest
        \<lparr>typeOps = [], inTypeBlock = True, braceCount = (if CHR ''{'' \<in> set h then 1 else 0),
         currentDescription = [], descriptionLines = [], inDescription = False\<rparr>" for rest
    by (simp add: opStep_Query_header [OF h th])
  have "typeOps (opLoop Query query T initOpState)
      = [\<lparr>op_name = ''foo'', op_type = query, op_description = None, op_parameters = None,
              op_returnType = ''Bar'', op_content = ''foo: Bar''\<rparr>]"
  proof (cases "CHR ''{'' \<in> set h")
    case True
    then have "opLoop Query query T initOpState = opLoop Query query [''foo: Bar'', ''}'']
        \<lparr>typeOps = [], inTypeBlock = True, braceCount = 1,
         currentDescription = [], descriptionLines = [], inDescription = False\<rparr>"
      using T hd [of "[''foo: Bar'', ''}'']"] by (simp only: if_True)
    then show ?thesis
      by (simp only: single_field_rest(1) opState.simps)
  next
    case False
    then have "opLoop Query query T initOpState = opLoop Query query [''{'', ''foo: Bar'', ''}'']
        \<lparr>typeOps = [], inTypeBlock = True, braceCount = 0,
         currentDescription = [], descriptionLines = [], inDescription = False\<rparr>"
      using T hd [of "[''{'', ''foo: Bar'', ''}'']"] by (simp only: if_False)
    then show ?thesis
      by (simp only: single_field_rest(2) opState.simps)
  qed
  then have "typeOps (opLoop Query query lines initOpState)
      = [\<lparr>op_name = ''foo'', op_type = query, op_description = None, op_parameters = None,
              op_returnType = ''Bar'', op_content = ''foo: Bar''\<rparr>]"
    by (simp only: e)
  then have q: "parseOperationsFromType lines Query query
      = [\<lparr>op_name = ''foo'', op_type = query, op_description = None, op_parameters = None,
              op_returnType = ''Bar'', op_content = ''foo: Bar''\<rparr>]"
    by (simp add: parseOperationsFromType_def)
  show ?thesis
    using ne q m t by (simp add: parseSchema_def lines_def)
qed

lemma single_field_layouts:
  "isHeader Query ''type Query {''" "isHeader Query ''type Query''"
  "map trim (filter (\<lambda>l. trim l \<noteq> [])
     (splitLines (''type Query {'' @ [CHR 0x0D, CHR 0x0A, CHR 0x0D, CHR 0x0A] @
                  ''  foo: Bar'' @ [CHR 0x0D, CHR 0x0A] @ ''}'' @ [CHR 0x0D, CHR 0x0A])))
   = [''type Query {'', ''foo: Bar'', ''}'']"
  "map trim (filter (\<lambda>l. trim l \<noteq> [])
     (splitLines ''type Query\<newline>{\<newline>\<newline>  foo: Bar\<newline>}\<newline>''))
   = [''type Query'', ''{'', ''foo: Bar'', ''}'']"
  by code_simp+

text \<open>
  The schema with CR LF line ends, a blank line and two spaces before the field; and the
  schema with the opening brace on a line of its own, a blank line and a final line feed.
\<close>

theorem single_field_query_witness:
  "parseSchema (JSString (''type Query {'' @ [CHR 0x0D, CHR 0x0A, CHR 0x0D, CHR 0x0A] @
                  ''  foo: Bar'' @ [CHR 0x0D, CHR 0x0A] @ ''}'' @ [CHR 0x0D, CHR 0x0A]))
     = ([\<lparr>op_name = ''foo'', op_type = query, op_description = None, op_parameters = None,
          op_returnType = ''Bar'', op_content = ''foo: Bar''\<rparr>], []) \<and>
   parseSchema (JSString ''type Query\<newline>{\<newline>\<newline>  foo: Bar\<newline>}\<newline>'')
     = ([\<lparr>op_name = ''foo'', op_type = query, op_description = None, op_parameters = None,
          op_returnType = ''Bar'', op_content = ''foo: Bar''\<rparr>], [])"
  using single_field_query [OF single_field_layouts(1), of
      "''type Query {'' @ [CHR 0x0D, CHR 0x0A, CHR 0x0D, CHR 0x0A] @
                  ''  foo: Bar'' @ [CHR 0x0D, CHR 0x0A] @ ''}'' @ [CHR 0x0D, CHR 0x0A]"]
    single_field_query [OF single_field_layouts(2), of
      "''type Query\<newline>{\<newline>\<newline>  foo: Bar\<newline>}\<newline>''"]
    single_field_layouts(3,4)
  by simp

section \<open>C3: the brace depth of the operation pass\<close>





section \<open>C4: the content of an entry\<close>

text \<open>
  C4. The content of an Operation is one source line, and the content of a TypeDefinition
  runs from its declaration line to its closing brace line, or ends without a brace for
  \<^verbatim>\<open>scalar\<close> and \<^verbatim>\<open>union\<close>; no content holds lines beyond its own closing brace, also
  when the header of a reserved type follows.

  The code tests for the end of a definition only on the lines after the declaration line.
  A definition that is closed on its declaration line, and a \<^verbatim>\<open>scalar\<close>, are still open on
  the next line; the header of a reserved type is skipped by \<^verbatim>\<open>continue\<close> and closes
  nothing, so the lines of the Query block are appended to the content of the definition before
  it. The theorem runs the callback on an enum and on a scalar followed by a Query block.
\<close>

theorem type_content_past_closing_brace:
  "parseSchema (JSString ''enum Color { RED GREEN BLUE }\<newline>type Query {\<newline>  foo: Bar\<newline>}'')
     = ([\<lparr>op_name = ''foo'', op_type = query, op_description = None, op_parameters = None,
          op_returnType = ''Bar'', op_content = ''foo: Bar''\<rparr>],
        [\<lparr>ty_name = ''Color'', ty_kind = ''enum'', ty_description = None,
          ty_content = ''enum Color { RED GREEN BLUE }\<newline>  foo: Bar\<newline>}''\<rparr>])
   \<and> parseSchema (JSString ''scalar Date\<newline>type Query {\<newline>  foo: Bar\<newline>}'')
     = ([\<lparr>op_name = ''foo'', op_type = query, op_description = None, op_parameters = None,
          op_returnType = ''Bar'', op_content = ''foo: Bar''\<rparr>],
        [\<lparr>ty_name = ''Date'', ty_kind = ''scalar'', ty_description = None,
          ty_content = ''scalar Date\<newline>  foo: Bar''\<rparr>])"
  by code_simp

section \<open>C5: reserved root types\<close>

text \<open>
  C5. For every input no TypeDefinition is named Query, Mutation or Subscription, and a
  Subscription block adds an entry to neither list.

  The code lists a field of a Subscription block as a query when the Query block before it is
  written on one line. The branch for the header line counts the opening brace only and ends
  with \<^verbatim>\<open>continue\<close>: the closing brace on that line is not counted and the test that leaves
  the block is not reached, while the type pass counts both braces on a declaration line. The
  operation pass is therefore still inside the root block on the lines that follow, and
  \<^verbatim>\<open>ping: Boolean\<close> is pushed as an Operation of type query. After a Query block of three
  lines the same Subscription block adds nothing. The theorem runs the callback on both
  schemas.
\<close>

theorem subscription_field_listed_as_query:
  "parseSchema (JSString ''type Query { foo: Bar }\<newline>type Subscription {\<newline>  ping: Boolean\<newline>}'')
     = ([\<lparr>op_name = ''ping'', op_type = query, op_description = None, op_parameters = None,
          op_returnType = ''Boolean'', op_content = ''ping: Boolean''\<rparr>], [])
   \<and> parseSchema (JSString
         ''type Query {\<newline>  foo: Bar\<newline>}\<newline>type Subscription {\<newline>  ping: Boolean\<newline>}'')
     = ([\<lparr>op_name = ''foo'', op_type = query, op_description = None, op_parameters = None,
          op_returnType = ''Bar'', op_content = ''foo: Bar''\<rparr>], [])"
  by code_simp

text \<open>
  What holds for every input: the names and kinds of the TypeDefinitions are those opened
  by the lines of the schema, in their order, so that no name is reserved and a line that
  opens no definition adds no entry, whatever comes before it.
\<close>

lemma type_entries_opened:
  "map (\<lambda>t. (ty_name t, ty_kind t)) (snd (parseSchema (JSString s)))
     = (if s = [] then [] else concat (map openedBy (splitLines s)))"
  by (simp add: parseSchema_def Let_def parseTypes_entries)

lemma type_names_not_reserved:
  "\<forall>t\<in>set (snd (parseSchema schema)).
      ty_name t \<noteq> ''Query'' \<and> ty_name t \<noteq> ''Mutation'' \<and> ty_name t \<noteq> ''Subscription''"
proof -
  have "\<forall>t\<in>set (snd (parseSchema schema)). \<not> isReserved (ty_name t)"
    by (rule parseSchema_types_all) simp_all
  then show ?thesis
    by (simp add: isReserved_def)
qed

section \<open>C6: input that is not text\<close>

text \<open>
  C6. For every input where the schema value is empty, null-like, or not a string, the
  extraction returns two empty lists. The callback has no error branch: it returns a pair
  of lists for every value.
\<close>

theorem parseSchema_not_text:
  assumes "(\<forall>s. schema \<noteq> JSString s) \<or> schema = JSString []"
  shows "parseSchema schema = ([], [])"
  using assms by (cases schema) (auto simp: parseSchema_def)

theorem parseSchema_not_text_witness:
  "parseSchema JSNull = ([], []) \<and> parseSchema JSUndefined = ([], []) \<and>
   parseSchema (JSNumber 0) = ([], []) \<and> parseSchema (JSString []) = ([], [])"
  using parseSchema_not_text [of JSNull] parseSchema_not_text [of JSUndefined]
    parseSchema_not_text [of "JSNumber 0"] parseSchema_not_text [of "JSString []"]
  by simp

section \<open>C7: the arguments of a field\<close>

lemma mkParameter_eq:
  "mkParameter m = \<lparr>p_name = grp m 1, p_type = trim (removeChars ''!'' (trim (grp m 2))),
                    p_required = (CHR ''!'' \<in> set (grp m 2))\<rparr>"
  using includesChar_trim(3) [of "grp m 2"]
  by (simp add: mkParameter_def Let_def includesChar_def)

lemma mkParameter_type:
  "CHR ''!'' \<notin> set (p_type (mkParameter m)) \<and> trim (p_type (mkParameter m)) = p_type (mkParameter m)"
  using set_trim [of "removeChars ''!'' (trim (grp m 2))"]
    removeChars_notin [of "CHR ''!''" "''!''" "trim (grp m 2)"]
  by (auto simp: mkParameter_eq trim_idem)

lemma parseSchema_ops_lines:
  assumes "\<And>ot d l m. l \<in> set (splitLines s) \<Longrightarrow> rmatch fieldRegex (trim l) = Some m \<Longrightarrow>
             P (mkOperation ot d l m)"
  shows "\<forall>op\<in>set (fst (parseSchema (JSString s))). P op"
proof -
  have "\<forall>op\<in>set (parseOperationsFromType (splitLines s) tn ot). P op" for tn ot
    by (rule parseOperationsFromType_all) (rule assms)
  then show ?thesis
    using parseSchema_ops [of "JSString s"] by auto
qed

lemma mkOperation_parameters_eq:
  "op_parameters (mkOperation ot d line m) =
     (if parseParameters (grp m 2) = [] then None else Some (parseParameters (grp m 2)))"
  by (simp add: mkOperation_def Let_def)

lemma mkParameter_no_space:
  "p_type (mkParameter m) = [] \<or>
   (\<not> isSpace (hd (p_type (mkParameter m))) \<and> \<not> isSpace (last (p_type (mkParameter m))))"
  using trim_no_leading_space [of "removeChars ''!'' (trim (grp m 2))"]
    trim_no_trailing_space [of "removeChars ''!'' (trim (grp m 2))"]
  by (auto simp: mkParameter_eq)

text \<open>
  C7. For every argument of a field, \<^verbatim>\<open>required\<close> is true exactly when the raw type of the
  argument (the second group of the argument pattern) holds a \<^verbatim>\<open>!\<close>, and the stored type
  is the raw type with every \<^verbatim>\<open>!\<close> removed, trimmed: it holds no \<^verbatim>\<open>!\<close>, and it neither
  starts nor ends with white space. Every Operation of the output comes from a line of the
  schema that the field pattern matches: its content is that line, trimmed, and its
  parameters are \<^verbatim>\<open>parseParameters\<close> of the argument list found on that line, absent when
  there is none.
\<close>

theorem parameter_required_iff:
  "(\<forall>op\<in>set (fst (parseSchema (JSString s))).
       \<exists>l\<in>set (splitLines s). \<exists>m.
          rmatch fieldRegex (trim l) = Some m \<and> op_content op = trim l \<and>
          op_parameters op =
            (if parseParameters (grp m 2) = [] then None else Some (parseParameters (grp m 2)))) \<and>
   parseParameters paramsString =
     (if paramsString = [] then []
      else map (\<lambda>m. \<lparr>p_name = grp m 1,
                       p_type = trim (removeChars ''!'' (trim (grp m 2))),
                       p_required = (CHR ''!'' \<in> set (grp m 2))\<rparr>)
               (matchAll paramRegex (removeChars ''()'' paramsString))) \<and>
   (\<forall>p\<in>set (parseParameters paramsString).
       CHR ''!'' \<notin> set (p_type p) \<and> trim (p_type p) = p_type p \<and>
       (p_type p = [] \<or> (\<not> isSpace (hd (p_type p)) \<and> \<not> isSpace (last (p_type p)))))"
proof (intro conjI)
  show "\<forall>op\<in>set (fst (parseSchema (JSString s))).
       \<exists>l\<in>set (splitLines s). \<exists>m.
          rmatch fieldRegex (trim l) = Some m \<and> op_content op = trim l \<and>
          op_parameters op =
            (if parseParameters (grp m 2) = [] then None else Some (parseParameters (grp m 2)))"
  proof (rule parseSchema_ops_lines)
    fix ot d l m
    assume "l \<in> set (splitLines s)" and "rmatch fieldRegex (trim l) = Some m"
    then show "\<exists>l'\<in>set (splitLines s). \<exists>m'.
          rmatch fieldRegex (trim l') = Some m' \<and> op_content (mkOperation ot d l m) = trim l' \<and>
          op_parameters (mkOperation ot d l m) =
            (if parseParameters (grp m' 2) = [] then None else Some (parseParameters (grp m' 2)))"
      using mkOperation_parameters_eq [of ot d l m] mkOperation_content [of ot d l m]
      by (intro bexI [of _ l] exI [of _ m]) simp_all
  qed
next
  have "mkParameter = (\<lambda>m. \<lparr>p_name = grp m 1,
                       p_type = trim (removeChars ''!'' (trim (grp m 2))),
                       p_required = (CHR ''!'' \<in> set (grp m 2))\<rparr>)"
    by (rule ext) (rule mkParameter_eq)
  then show "parseParameters paramsString =
     (if paramsString = [] then []
      else map (\<lambda>m. \<lparr>p_name = grp m 1,
                       p_type = trim (removeChars ''!'' (trim (grp m 2))),
                       p_required = (CHR ''!'' \<in> set (grp m 2))\<rparr>)
               (matchAll paramRegex (removeChars ''()'' paramsString)))"
    by (simp add: parseParameters_def Let_def)
next
  show "\<forall>p\<in>set (parseParameters paramsString).
       CHR ''!'' \<notin> set (p_type p) \<and> trim (p_type p) = p_type p \<and>
       (p_type p = [] \<or> (\<not> isSpace (hd (p_type p)) \<and> \<not> isSpace (last (p_type p))))"
    using mkParameter_type mkParameter_no_space by (auto simp: parseParameters_def Let_def)
qed

lemma spaced_argument_schema:
  "parseSchema (JSString ''type Query {\<newline>  widget( id : ID ! , tag:String ): Widget\<newline>  ping: Boolean\<newline>}'')
   = ([\<lparr>op_name = ''widget'', op_type = query, op_description = None,
        op_parameters = Some [\<lparr>p_name = ''id'', p_type = ''ID'', p_required = True\<rparr>,
                              \<lparr>p_name = ''tag'', p_type = ''String'', p_required = False\<rparr>],
        op_returnType = ''Widget'', op_content = ''widget( id : ID ! , tag:String ): Widget''\<rparr>,
       \<lparr>op_name = ''ping'', op_type = query, op_description = None, op_parameters = None,
        op_returnType = ''Boolean'', op_content = ''ping: Boolean''\<rparr>], [])"
  "parseParameters ''( id : ID ! , tag:String )''
     = [\<lparr>p_name = ''id'', p_type = ''ID'', p_required = True\<rparr>,
        \<lparr>p_name = ''tag'', p_type = ''String'', p_required = False\<rparr>]"
  "map (\<lambda>m. grp m 2) (matchAll paramRegex (removeChars ''()'' ''( id : ID ! , tag:String )''))
     = [''ID ! '', ''String '']"
  "parseParameters ''(id: ID!)'' = [\<lparr>p_name = ''id'', p_type = ''ID'', p_required = True\<rparr>]"
  "parseParameters ''(id: ID)'' = [\<lparr>p_name = ''id'', p_type = ''ID'', p_required = False\<rparr>]"
  "\<not> isSpace CHR ''I''" "\<not> isSpace CHR ''D''" "\<not> isSpace CHR ''S''" "\<not> isSpace CHR ''g''"
  by code_simp+

text \<open>
  A field whose argument list has white space around the names, the types and the \<^verbatim>\<open>!\<close>:
  the raw types are \<^verbatim>\<open>ID ! \<close> and \<^verbatim>\<open>String \<close> with their trailing space, the stored types
  are ID and String. A field without arguments has no parameters. The argument \<^verbatim>\<open>id: ID!\<close>
  is required with type ID; \<^verbatim>\<open>id: ID\<close> is not required.
\<close>

theorem parameter_required_iff_witness:
  "map op_parameters (fst (parseSchema (JSString
       ''type Query {\<newline>  widget( id : ID ! , tag:String ): Widget\<newline>  ping: Boolean\<newline>}'')))
     = [Some [\<lparr>p_name = ''id'', p_type = ''ID'', p_required = True\<rparr>,
              \<lparr>p_name = ''tag'', p_type = ''String'', p_required = False\<rparr>], None] \<and>
   parseParameters ''( id : ID ! , tag:String )''
     = [\<lparr>p_name = ''id'', p_type = ''ID'', p_required = True\<rparr>,
        \<lparr>p_name = ''tag'', p_type = ''String'', p_required = False\<rparr>] \<and>
   map (\<lambda>m. grp m 2) (matchAll paramRegex (removeChars ''()'' ''( id : ID ! , tag:String )''))
     = [''ID ! '', ''String ''] \<and>
   parseParameters ''(id: ID!)'' = [\<lparr>p_name = ''id'', p_type = ''ID'', p_required = True\<rparr>] \<and>
   parseParameters ''(id: ID)'' = [\<lparr>p_name = ''id'', p_type = ''ID'', p_required = False\<rparr>] \<and>
   CHR ''!'' \<notin> set ''ID'' \<and> \<not> isSpace (hd ''ID'') \<and> \<not> isSpace (last ''ID'') \<and>
   \<not> isSpace (hd ''String'') \<and> \<not> isSpace (last ''String'')"
  using parameter_required_iff [of
      "''type Query {\<newline>  widget( id : ID ! , tag:String ): Widget\<newline>  ping: Boolean\<newline>}''"
      "''( id : ID ! , tag:String )''"]
  unfolding spaced_argument_schema by simp

section \<open>C8: the return type of an operation\<close>

text \<open>
  C8, as stated, removes the list decoration too: a field that returns \<^verbatim>\<open>[Bar!]!\<close> would
  have the return type Bar. The code removes \<^verbatim>\<open>!\<close> and \<^verbatim>\<open>,\<close> only, and the brackets stay.
\<close>

theorem returnType_brackets_counterexample:
  "map op_returnType (fst (parseSchema (JSString ''type Query {\<newline>  foo: [Bar!]!\<newline>}''))) = [''[Bar]'']"
  by code_simp

text \<open>
  C8, amended. For every Operation of the output the return type holds no \<^verbatim>\<open>!\<close> and no
  \<^verbatim>\<open>,\<close> and is its own trim; it is the third group of the field pattern on the declaration
  line, trimmed, without a tail that starts at an opening brace, without \<^verbatim>\<open>!\<close> and \<^verbatim>\<open>,\<close>,
  trimmed. The square brackets of a list type are kept.
\<close>

theorem returnType_stripped:
  "\<forall>op\<in>set (fst (parseSchema (JSString s))).
      CHR ''!'' \<notin> set (op_returnType op) \<and> CHR '','' \<notin> set (op_returnType op) \<and>
      trim (op_returnType op) = op_returnType op \<and>
      (\<exists>l\<in>set (splitLines s). \<exists>m.
          rmatch fieldRegex (trim l) = Some m \<and> op_content op = trim l \<and>
          op_returnType op =
            trim (removeChars ''!,'' (trim (removeFirst braceTailRegex (trim (grp m 3))))))"
proof (rule parseSchema_ops_lines)
  fix ot d l m
  assume l: "l \<in> set (splitLines s)" and m: "rmatch fieldRegex (trim l) = Some m"
  let ?op = "mkOperation ot d l m"
  have r: "op_returnType ?op =
      trim (removeChars ''!,'' (trim (removeFirst braceTailRegex (trim (grp m 3)))))"
    by (rule mkOperation_returnType)
  have "CHR ''!'' \<notin> set (op_returnType ?op) \<and> CHR '','' \<notin> set (op_returnType ?op)"
    unfolding r by (rule returnType_clean)
  moreover have "trim (op_returnType ?op) = op_returnType ?op"
    unfolding r by (rule trim_idem)
  moreover have "\<exists>l\<in>set (splitLines s). \<exists>m.
          rmatch fieldRegex (trim l) = Some m \<and> op_content ?op = trim l \<and>
          op_returnType ?op =
            trim (removeChars ''!,'' (trim (removeFirst braceTailRegex (trim (grp m 3)))))"
    using l m r mkOperation_content [of ot d l m] by blast
  ultimately show "CHR ''!'' \<notin> set (op_returnType ?op) \<and> CHR '','' \<notin> set (op_returnType ?op) \<and>
      trim (op_returnType ?op) = op_returnType ?op \<and>
      (\<exists>l\<in>set (splitLines s). \<exists>m.
          rmatch fieldRegex (trim l) = Some m \<and> op_content ?op = trim l \<and>
          op_returnType ?op =
            trim (removeChars ''!,'' (trim (removeFirst braceTailRegex (trim (grp m 3))))))"
    by blast
qed

lemma list_return_schema:
  "parseSchema (JSString ''type Query {\<newline>  foo: [Bar!]!\<newline>}'')
   = ([\<lparr>op_name = ''foo'', op_type = query, op_description = None, op_parameters = None,
        op_returnType = ''[Bar]'', op_content = ''foo: [Bar!]!''\<rparr>], [])"
  by code_simp

text \<open>
  The field that returns \<^verbatim>\<open>[Bar!]!\<close>.
\<close>

theorem returnType_stripped_witness:
  "map op_returnType (fst (parseSchema (JSString ''type Query {\<newline>  foo: [Bar!]!\<newline>}''))) = [''[Bar]'']
   \<and> CHR ''!'' \<notin> set ''[Bar]'' \<and> CHR '','' \<notin> set ''[Bar]'' \<and> trim ''[Bar]'' = ''[Bar]''"
  using returnType_stripped [of "''type Query {\<newline>  foo: [Bar!]!\<newline>}''"]
  unfolding list_return_schema by simp

section \<open>C9: descriptions are absent or non-empty\<close>

text \<open>
  C9. For every input, every Operation and every TypeDefinition of the output has no
  description or a description that is not empty and is its own trim.
\<close>

theorem descriptions_never_empty:
  "(\<forall>op\<in>set (fst (parseSchema schema)).
      case op_description op of None \<Rightarrow> True | Some d \<Rightarrow> d \<noteq> [] \<and> trim d = d) \<and>
   (\<forall>t\<in>set (snd (parseSchema schema)).
      case ty_description t of None \<Rightarrow> True | Some d \<Rightarrow> d \<noteq> [] \<and> trim d = d)"
proof
  have "\<forall>op\<in>set (fst (parseSchema schema)). descriptionOk (op_description op)"
    by (rule parseSchema_ops_all) (rule mkOperation_description)
  then show "\<forall>op\<in>set (fst (parseSchema schema)).
      case op_description op of None \<Rightarrow> True | Some d \<Rightarrow> d \<noteq> [] \<and> trim d = d"
    by (simp add: descriptionOk_def)
next
  have "\<forall>t\<in>set (snd (parseSchema schema)). descriptionOk (ty_description t)"
    by (rule parseSchema_types_all)
       (simp_all add: descriptionOk_def orUndefined_def trim_idem)
  then show "\<forall>t\<in>set (snd (parseSchema schema)).
      case ty_description t of None \<Rightarrow> True | Some d \<Rightarrow> d \<noteq> [] \<and> trim d = d"
    by (simp add: descriptionOk_def)
qed

lemma described_schema:
  "parseSchema (JSString (tripleQuote @ ''A user'' @ tripleQuote @
      ''\<newline>type User {\<newline>  id: ID!\<newline>}\<newline>type Query {\<newline>  # The current user\<newline>  me: User\<newline>}''))
   = ([\<lparr>op_name = ''me'', op_type = query, op_description = Some ''The current user'',
        op_parameters = None, op_returnType = ''User'', op_content = ''me: User''\<rparr>],
      [\<lparr>ty_name = ''User'', ty_kind = ''type'', ty_description = Some ''A user'',
        ty_content = ''type User {\<newline>  id: ID!\<newline>}''\<rparr>])"
  by code_simp

text \<open>
  A schema with a described type and a described query.
\<close>

theorem descriptions_never_empty_witness:
  "map op_description (fst (parseSchema (JSString (tripleQuote @ ''A user'' @ tripleQuote @
      ''\<newline>type User {\<newline>  id: ID!\<newline>}\<newline>type Query {\<newline>  # The current user\<newline>  me: User\<newline>}''))))
     = [Some ''The current user''] \<and>
   map ty_description (snd (parseSchema (JSString (tripleQuote @ ''A user'' @ tripleQuote @
      ''\<newline>type User {\<newline>  id: ID!\<newline>}\<newline>type Query {\<newline>  # The current user\<newline>  me: User\<newline>}''))))
     = [Some ''A user''] \<and>
   ''The current user'' \<noteq> [] \<and> trim ''The current user'' = ''The current user'' \<and>
   ''A user'' \<noteq> [] \<and> trim ''A user'' = ''A user''"
  using descriptions_never_empty [of "JSString (tripleQuote @ ''A user'' @ tripleQuote @
      ''\<newline>type User {\<newline>  id: ID!\<newline>}\<newline>type Query {\<newline>  # The current user\<newline>  me: User\<newline>}'')"]
  unfolding described_schema by simp

section \<open>C10: entering the root block\<close>

text \<open>
  C10. The operation pass enters the root block only on a line whose trimmed text is
  \<^verbatim>\<open>type\<close> and the root name, or starts with that and a space, or with that and an opening
  brace; a type whose name only begins with the root name, such as \<^verbatim>\<open>type QueryResult\<close>,
  adds no Operation.

  The code lists a field of \<^verbatim>\<open>type QueryResult\<close> as a query when the Query block before it
  is written on one line. The defect is the one of C5: the branch for the header line counts
  the opening brace only and ends with \<^verbatim>\<open>continue\<close>, so the pass is still inside the root
  block on the lines that follow, and \<^verbatim>\<open>a: B\<close> is pushed as an Operation. After a Query
  block of three lines the same block adds nothing. The theorem runs the callback on both
  schemas.
\<close>

theorem prefix_type_field_listed_as_query:
  "parseSchema (JSString ''type Query { foo: Bar }\<newline>type QueryResult {\<newline>  a: B\<newline>}'')
     = ([\<lparr>op_name = ''a'', op_type = query, op_description = None, op_parameters = None,
          op_returnType = ''B'', op_content = ''a: B''\<rparr>],
        [\<lparr>ty_name = ''QueryResult'', ty_kind = ''type'', ty_description = None,
          ty_content = ''type QueryResult {\<newline>  a: B\<newline>}''\<rparr>])
   \<and> parseSchema (JSString ''type Query {\<newline>  foo: Bar\<newline>}\<newline>type QueryResult {\<newline>  a: B\<newline>}'')
     = ([\<lparr>op_name = ''foo'', op_type = query, op_description = None, op_parameters = None,
          op_returnType = ''Bar'', op_content = ''foo: Bar''\<rparr>],
        [\<lparr>ty_name = ''QueryResult'', ty_kind = ''type'', ty_description = None,
          ty_content = ''type QueryResult {\<newline>  a: B\<newline>}''\<rparr>])"
  by code_simp

text \<open>
  What holds for every input: the test for the header is exact, and the header of a type
  whose name goes on after the root name never passes it.
\<close>

lemma root_block_entered_on_header:
  assumes "\<not> inTypeBlock st" and "inTypeBlock (fst (opStep tn ot line st))"
  shows "trim line = ''type '' @ rootName tn \<or>
         startsWith (trim line) (''type '' @ rootName tn @ '' '') \<or>
         startsWith (trim line) (''type '' @ rootName tn @ ''{'')"
  using opStep_enter [OF assms] by (simp add: isHeader_def)

lemma longer_name_is_no_header:
  assumes "c \<noteq> CHR '' ''" and "c \<noteq> CHR ''{''"
  shows "\<not> isHeader tn (''type '' @ rootName tn @ c # t)"
  using assms by (cases tn) (simp_all add: isHeader_def startsWith_def)

end
